theory Spec2Isabelle
  imports Main "HOL-Library.Word" "HOL-Library.AList"
begin

section \<open>JavaScript values used by the mail client\<close>

text \<open>
  A JavaScript string is a sequence of 16-bit code units. String literals of the source
  are ASCII and are written \<open>js ''...''\<close>. A value that may be \<open>undefined\<close> (or
  \<open>null\<close>) is an \<open>option\<close>, with \<open>None\<close> for the missing value.
\<close>

type_synonym jsstring = "16 word list"

definition js :: "string \<Rightarrow> jsstring" where
  "js s = map (\<lambda>c. of_nat (of_char c)) s"

text \<open>Everything the code can throw, or a platform promise can reject with.\<close>

datatype thrown =
    Error jsstring          \<comment> \<open>\<open>new Error(message)\<close>\<close>
  | TypeError               \<comment> \<open>reading a property of \<open>null\<close>\<close>
  | InvalidCharacterError   \<comment> \<open>the DOMException of \<open>atob\<close> and \<open>btoa\<close>\<close>
  | SyntaxError             \<comment> \<open>\<open>JSON.parse\<close> on text that is not JSON\<close>
  | Rejected jsstring       \<comment> \<open>a platform call (fetch, storage, notifications) that rejects\<close>

text \<open>Truthiness of a string that may be undefined: \<open>undefined\<close> and \<open>''\<close> are falsy.\<close>

fun truthy :: "jsstring option \<Rightarrow> bool" where
  "truthy None = False"
| "truthy (Some s) = (s \<noteq> [])"

text \<open>Interpolation \<open>`${v}`\<close> in a template literal: \<open>undefined\<close> prints as the word.\<close>

fun tmpl :: "jsstring option \<Rightarrow> jsstring" where
  "tmpl None = js ''undefined''"
| "tmpl (Some s) = s"

text \<open>\<open>s.replace(/c/g, r)\<close> for a single character \<open>c\<close>: every occurrence, left to right.\<close>

fun replace_all :: "16 word \<Rightarrow> jsstring \<Rightarrow> jsstring \<Rightarrow> jsstring" where
  "replace_all c r [] = []"
| "replace_all c r (x # xs) = (if x = c then r @ replace_all c r xs else x # replace_all c r xs)"

section \<open>Platform codecs: TextEncoder, TextDecoder, btoa, atob\<close>

subsection \<open>UTF-16 code units and Unicode scalar values\<close>

definition is_high :: "16 word \<Rightarrow> bool" where
  "is_high u = (0xD800 \<le> u \<and> u \<le> 0xDBFF)"

definition is_low :: "16 word \<Rightarrow> bool" where
  "is_low u = (0xDC00 \<le> u \<and> u \<le> 0xDFFF)"

text \<open>
  Reading a string as scalar values, as \<open>TextEncoder.encode\<close> does: a surrogate pair
  is one code point, a surrogate without its partner becomes U+FFFD.
\<close>

fun utf16_scalars :: "jsstring \<Rightarrow> nat list" where
  "utf16_scalars [] = []"
| "utf16_scalars [u] = (if is_high u \<or> is_low u then [0xFFFD] else [unat u])"
| "utf16_scalars (u # l # us) =
     (if is_high u then
        (if is_low l
         then (0x10000 + (unat u - 0xD800) * 0x400 + (unat l - 0xDC00)) # utf16_scalars us
         else 0xFFFD # utf16_scalars (l # us))
      else if is_low u then 0xFFFD # utf16_scalars (l # us)
      else unat u # utf16_scalars (l # us))"

text \<open>Writing code points as code units, as \<open>TextDecoder.decode\<close> does for its result.\<close>

definition utf16_units :: "nat \<Rightarrow> jsstring" where
  "utf16_units cp =
     (if cp < 0x10000 then [of_nat cp]
      else [of_nat (0xD800 + (cp - 0x10000) div 0x400),
            of_nat (0xDC00 + (cp - 0x10000) mod 0x400)])"

text \<open>A string without unpaired surrogates.\<close>

fun well_formed :: "jsstring \<Rightarrow> bool" where
  "well_formed [] = True"
| "well_formed [u] = (\<not> is_high u \<and> \<not> is_low u)"
| "well_formed (u # l # us) =
     (if is_high u then is_low l \<and> well_formed us
      else \<not> is_low u \<and> well_formed (l # us))"

text \<open>A Unicode scalar value: a code point that is not a surrogate.\<close>

definition scalar :: "nat \<Rightarrow> bool" where
  "scalar cp = (cp < 0x110000 \<and> \<not> (0xD800 \<le> cp \<and> cp \<le> 0xDFFF))"

subsection \<open>UTF-8\<close>

definition utf8_bytes :: "nat \<Rightarrow> nat list" where
  "utf8_bytes cp =
     (if cp < 0x80 then [cp]
      else if cp < 0x800 then [0xC0 + cp div 0x40, 0x80 + cp mod 0x40]
      else if cp < 0x10000 then
        [0xE0 + cp div 0x1000, 0x80 + cp div 0x40 mod 0x40, 0x80 + cp mod 0x40]
      else [0xF0 + cp div 0x40000, 0x80 + cp div 0x1000 mod 0x40,
            0x80 + cp div 0x40 mod 0x40, 0x80 + cp mod 0x40])"

definition TextEncoder_encode :: "jsstring \<Rightarrow> 8 word list" where
  "TextEncoder_encode str = map of_nat (concat (map utf8_bytes (utf16_scalars str)))"

text \<open>
  The UTF-8 decoder of the Encoding Standard in replacement mode (a \<open>TextDecoder\<close>
  that is not fatal): the arguments are its state (code point, bytes needed, bytes seen,
  lower and upper boundary) and the bytes still to read. A byte that cannot continue a
  sequence gives U+FFFD and is read again as the start of a new one.
\<close>

function utf8_decode :: "nat \<Rightarrow> nat \<Rightarrow> nat \<Rightarrow> nat \<Rightarrow> nat \<Rightarrow> nat list \<Rightarrow> nat list" where
  "utf8_decode cp needed seen lower upper [] = (if needed \<noteq> 0 then [0xFFFD] else [])"
| "utf8_decode cp needed seen lower upper (b # bs) =
     (if needed = 0 then
        (if b \<le> 0x7F then b # utf8_decode cp needed seen lower upper bs
         else if 0xC2 \<le> b \<and> b \<le> 0xDF then utf8_decode (b mod 0x20) 1 seen lower upper bs
         else if 0xE0 \<le> b \<and> b \<le> 0xEF then
           utf8_decode (b mod 0x10) 2 seen
             (if b = 0xE0 then 0xA0 else lower) (if b = 0xED then 0x9F else upper) bs
         else if 0xF0 \<le> b \<and> b \<le> 0xF4 then
           utf8_decode (b mod 0x08) 3 seen
             (if b = 0xF0 then 0x90 else lower) (if b = 0xF4 then 0x8F else upper) bs
         else 0xFFFD # utf8_decode cp needed seen lower upper bs)
      else if \<not> (lower \<le> b \<and> b \<le> upper) then
        0xFFFD # utf8_decode 0 0 0 0x80 0xBF (b # bs)
      else if seen + 1 \<noteq> needed then
        utf8_decode (cp * 0x40 + b mod 0x40) needed (seen + 1) 0x80 0xBF bs
      else (cp * 0x40 + b mod 0x40) # utf8_decode 0 0 0 0x80 0xBF bs)"
  by pat_completeness auto
termination
  by (relation "measure (\<lambda>(cp, needed, seen, lower, upper, bs).
        2 * length bs + (if needed = 0 then 0 else 1))") auto

text \<open>
  \<open>new TextDecoder().decode(bytes)\<close>: UTF-8, not fatal, and (\<open>ignoreBOM\<close> is false
  by default) a byte order mark U+FEFF at the start of the output is dropped.
\<close>

definition strip_bom :: "nat list \<Rightarrow> nat list" where
  "strip_bom cps = (case cps of [] \<Rightarrow> [] | c # rest \<Rightarrow> if c = 0xFEFF then rest else cps)"

definition TextDecoder_decode :: "8 word list \<Rightarrow> jsstring" where
  "TextDecoder_decode bytes =
     concat (map utf16_units (strip_bom (utf8_decode 0 0 0 0x80 0xBF (map unat bytes))))"

subsection \<open>Base64\<close>

definition b64_alphabet :: jsstring where
  "b64_alphabet = js ''ABCDEFGHIJKLMNOPQRSTUVWXYZabcdefghijklmnopqrstuvwxyz0123456789+/''"

definition b64_char :: "nat \<Rightarrow> 16 word" where
  "b64_char n = b64_alphabet ! (n mod 64)"

fun index_of :: "'a \<Rightarrow> 'a list \<Rightarrow> nat option" where
  "index_of c [] = None"
| "index_of c (x # xs) = (if x = c then Some 0 else map_option Suc (index_of c xs))"

definition b64_val :: "16 word \<Rightarrow> nat option" where
  "b64_val c = index_of c b64_alphabet"

text \<open>\<open>btoa\<close>: three bytes give four characters; one or two left-over bytes are padded.\<close>

fun btoa_bytes :: "nat list \<Rightarrow> jsstring" where
  "btoa_bytes (a # b # c # rest) =
     [b64_char (a div 4), b64_char (a mod 4 * 16 + b div 16),
      b64_char (b mod 16 * 4 + c div 64), b64_char (c mod 64)] @ btoa_bytes rest"
| "btoa_bytes [a, b] =
     [b64_char (a div 4), b64_char (a mod 4 * 16 + b div 16), b64_char (b mod 16 * 4), 0x3D]"
| "btoa_bytes [a] = [b64_char (a div 4), b64_char (a mod 4 * 16), 0x3D, 0x3D]"
| "btoa_bytes [] = []"

text \<open>
  The same output described in two parts, for the proofs: the 6-bit groups of the bytes,
  and the padding that fills the last group of four characters.
\<close>

fun b64_sextets :: "nat list \<Rightarrow> nat list" where
  "b64_sextets (a # b # c # rest) =
     [a div 4, a mod 4 * 16 + b div 16, b mod 16 * 4 + c div 64, c mod 64] @ b64_sextets rest"
| "b64_sextets [a, b] = [a div 4, a mod 4 * 16 + b div 16, b mod 16 * 4]"
| "b64_sextets [a] = [a div 4, a mod 4 * 16]"
| "b64_sextets [] = []"

definition b64_padding :: "nat list \<Rightarrow> jsstring" where
  "b64_padding bs = replicate ((3 - length bs mod 3) mod 3) 0x3D"

definition btoa :: "jsstring \<Rightarrow> thrown + jsstring" where
  "btoa s = (if \<exists>u \<in> set s. 0xFF < u then Inl InvalidCharacterError
             else Inr (btoa_bytes (map unat s)))"

text \<open>
  \<open>atob\<close> is the forgiving-base64 decode of the HTML Standard: ASCII whitespace is
  removed; when the length is a multiple of four, one or two \<open>=\<close> at the end are
  removed; a length of 1 modulo 4 or a character outside the alphabet fails; then four
  characters give three bytes, and two or three left-over characters one or two bytes.
\<close>

definition ascii_whitespace :: "16 word \<Rightarrow> bool" where
  "ascii_whitespace c = (c = 0x09 \<or> c = 0x0A \<or> c = 0x0C \<or> c = 0x0D \<or> c = 0x20)"

definition strip_padding :: "jsstring \<Rightarrow> jsstring" where
  "strip_padding d =
     (if length d mod 4 = 0 then
        (if 2 \<le> length d \<and> drop (length d - 2) d = [0x3D, 0x3D] then take (length d - 2) d
         else if 1 \<le> length d \<and> drop (length d - 1) d = [0x3D] then take (length d - 1) d
         else d)
      else d)"

fun atob_sextets :: "nat list \<Rightarrow> nat list" where
  "atob_sextets (a # b # c # d # rest) =
     [a * 4 + b div 16, b mod 16 * 16 + c div 4, c mod 4 * 64 + d] @ atob_sextets rest"
| "atob_sextets [a, b, c] = [a * 4 + b div 16, b mod 16 * 16 + c div 4]"
| "atob_sextets [a, b] = [a * 4 + b div 16]"
| "atob_sextets [a] = []"
| "atob_sextets [] = []"

definition atob :: "jsstring \<Rightarrow> thrown + jsstring" where
  "atob s =
     (let d = strip_padding (filter (\<lambda>c. \<not> ascii_whitespace c) s) in
      if length d mod 4 = 1 then Inl InvalidCharacterError
      else case those (map b64_val d) of
             None \<Rightarrow> Inl InvalidCharacterError
           | Some vs \<Rightarrow> Inr (map of_nat (atob_sextets vs)))"

section \<open>utils.js\<close>

subsection \<open>base64Encode and base64Decode\<close>

text \<open>\<open>s.replace(/=+$/, '')\<close>: the run of \<open>=\<close> at the end of the string is removed.\<close>

definition strip_trailing_eq :: "jsstring \<Rightarrow> jsstring" where
  "strip_trailing_eq s = rev (dropWhile (\<lambda>c. c = 0x3D) (rev s))"

text \<open>The loop \<open>binary += String.fromCharCode(data[i])\<close> over the bytes of \<open>data\<close>.\<close>

fun binary_of_bytes :: "8 word list \<Rightarrow> jsstring" where
  "binary_of_bytes [] = []"
| "binary_of_bytes (d # ds) = ucast d # binary_of_bytes ds"

definition base64Encode :: "jsstring \<Rightarrow> thrown + jsstring" where
  "base64Encode str =
     (let data = TextEncoder_encode str;
          binary = binary_of_bytes data
      in case btoa binary of
           Inl e \<Rightarrow> Inl e
         | Inr b \<Rightarrow>
             Inr (strip_trailing_eq (replace_all 0x2F (js ''_'') (replace_all 0x2B (js ''-'') b))))"

text \<open>The loop \<open>while (base64.length % 4) base64 += '='\<close>.\<close>

function pad4 :: "jsstring \<Rightarrow> jsstring" where
  "pad4 base64 = (if length base64 mod 4 \<noteq> 0 then pad4 (base64 @ [0x3D]) else base64)"
  by pat_completeness auto
termination
  by (relation "measure (\<lambda>s. (4 - length s mod 4) mod 4)") (auto simp: mod_Suc)

text \<open>The loop \<open>bytes[i] = binary.charCodeAt(i)\<close> into a \<open>Uint8Array\<close> (which keeps the low 8 bits).\<close>

fun bytes_of_binary :: "jsstring \<Rightarrow> 8 word list" where
  "bytes_of_binary [] = []"
| "bytes_of_binary (c # cs) = ucast c # bytes_of_binary cs"

definition base64Decode :: "jsstring \<Rightarrow> thrown + jsstring" where
  "base64Decode str =
     (let base64 = pad4 (replace_all 0x5F (js ''/'') (replace_all 0x2D (js ''+'') str))
      in case atob base64 of
           Inl e \<Rightarrow> Inl e
         | Inr binary \<Rightarrow> Inr (TextDecoder_decode (bytes_of_binary binary)))"

subsection \<open>createMimeMessage\<close>

text \<open>\<open>headers.join('\r\n')\<close>.\<close>

fun join_crlf :: "jsstring list \<Rightarrow> jsstring" where
  "join_crlf [] = []"
| "join_crlf [h] = h"
| "join_crlf (h # h' # hs) = h @ js [CHR 0x0D, CHR 0x0A] @ join_crlf (h' # hs)"

record mime_options =
  to :: "jsstring option"
  subject :: "jsstring option"
  body :: "jsstring option"
  "from" :: "jsstring option"
  inReplyTo :: "jsstring option"
  references :: "jsstring option"

text \<open>
  The header lines in the order the code builds them: the four fixed lines,
  \<open>From\<close> put in front (\<open>unshift\<close>), then \<open>In-Reply-To\<close> and \<open>References\<close>
  appended (\<open>push\<close>), each only for a truthy value. The \<open>boundary\<close> the source computes
  is never used.
\<close>

definition mime_headers :: "mime_options \<Rightarrow> jsstring list" where
  "mime_headers opts =
     (let headers = [js ''To: '' @ tmpl (to opts),
                     js ''Subject: '' @ tmpl (subject opts),
                     js ''MIME-Version: 1.0'',
                     js ''Content-Type: text/plain; charset=UTF-8''];
          headers = (if truthy (from opts) then (js ''From: '' @ tmpl (from opts)) # headers
                     else headers);
          headers = (if truthy (inReplyTo opts)
                     then headers @ [js ''In-Reply-To: '' @ tmpl (inReplyTo opts)] else headers);
          headers = (if truthy (references opts)
                     then headers @ [js ''References: '' @ tmpl (references opts)] else headers)
      in headers)"

definition mime_message :: "mime_options \<Rightarrow> jsstring" where
  "mime_message opts =
     join_crlf (mime_headers opts) @ js [CHR 0x0D, CHR 0x0A, CHR 0x0D, CHR 0x0A] @ tmpl (body opts)"

definition createMimeMessage :: "mime_options \<Rightarrow> thrown + jsstring" where
  "createMimeMessage opts = base64Encode (mime_message opts)"

subsection \<open>parseEmailHeaders\<close>

text \<open>
  The payload of a message is a tree of MIME parts. Every field may be missing in the
  provider's JSON. The object the code builds for the parsed headers is an association
  list in insertion order; assigning to an existing key replaces its value in place.
\<close>

datatype header = Header (name: jsstring) (val: jsstring)

datatype part_body = Body (data: "jsstring option")

datatype part =
  Part (mimeType: "jsstring option") (headers: "header list option")
       (body: "part_body option") (parts: "part list option")

type_synonym jsobject = "(jsstring \<times> jsstring) list"

definition headerNames :: "jsstring list" where
  "headerNames = [js ''From'', js ''To'', js ''Subject'', js ''Date'', js ''Message-ID'',
                  js ''References'', js ''In-Reply-To'']"

text \<open>
  \<open>toLowerCase\<close> on the letters A to Z. The code applies it only to a name that passed
  \<open>headerNames.includes\<close>, so to one of the seven ASCII names.
\<close>

definition toLowerCase :: "jsstring \<Rightarrow> jsstring" where
  "toLowerCase s = map (\<lambda>c. if 0x41 \<le> c \<and> c \<le> 0x5A then c + 0x20 else c) s"

fun parse_loop :: "header list \<Rightarrow> jsobject \<Rightarrow> jsobject" where
  "parse_loop [] hdrs = hdrs"
| "parse_loop (h # hs) hdrs =
     (if header.name h \<in> set headerNames
      then parse_loop hs (AList.update (toLowerCase (header.name h)) (header.val h) hdrs)
      else parse_loop hs hdrs)"


definition parseEmailHeaders :: "part \<Rightarrow> jsobject" where
  "parseEmailHeaders payload =
     (case part.headers payload of None \<Rightarrow> [] | Some hs \<Rightarrow> parse_loop hs [])"

subsection \<open>extractEmailBody\<close>

record email_body =
  html :: jsstring
  plain :: jsstring

text \<open>
  \<open>processPayload\<close> writes into \<open>result\<close> and calls itself on every sub-part; an
  exception of \<open>base64Decode\<close> is not caught anywhere, so it ends the walk.
  \<open>process_body\<close> is its first statement, the \<open>if\<close> on the body of the part.
\<close>

definition process_body ::
  "jsstring option \<Rightarrow> part_body option \<Rightarrow> email_body \<Rightarrow> thrown + email_body" where
  "process_body mt b result =
     (case b of
        None \<Rightarrow> Inr result
      | Some bd \<Rightarrow>
          if truthy (data bd) then
            (case base64Decode (tmpl (data bd)) of
               Inl e \<Rightarrow> Inl e
             | Inr decoded \<Rightarrow>
                 if mt = Some (js ''text/html'') then Inr (result\<lparr>html := decoded\<rparr>)
                 else if mt = Some (js ''text/plain'') then Inr (result\<lparr>plain := decoded\<rparr>)
                 else Inr result)
          else Inr result)"

fun processPayload :: "part \<Rightarrow> email_body \<Rightarrow> thrown + email_body"
  and processParts :: "part list \<Rightarrow> email_body \<Rightarrow> thrown + email_body" where
  "processPayload (Part mt hs b ps) result =
     (case process_body mt b result of
        Inl e \<Rightarrow> Inl e
      | Inr result' \<Rightarrow>
          (case ps of None \<Rightarrow> Inr result' | Some subs \<Rightarrow> processParts subs result'))"
| "processParts [] result = Inr result"
| "processParts (subpart # rest) result =
     (case processPayload subpart result of
        Inl e \<Rightarrow> Inl e
      | Inr result' \<Rightarrow> processParts rest result')"

text \<open>
  The parts \<open>processPayload\<close> visits, parent before children, and the test
  \<open>part.body && part.body.data\<close> with the data it guards.
\<close>

fun walk :: "part \<Rightarrow> part list"
  and walk_parts :: "part list \<Rightarrow> part list" where
  "walk (Part mt hs b ps) =
     Part mt hs b ps # (case ps of None \<Rightarrow> [] | Some subs \<Rightarrow> walk_parts subs)"
| "walk_parts [] = []"
| "walk_parts (subpart # rest) = walk subpart @ walk_parts rest"

definition has_data :: "part \<Rightarrow> bool" where
  "has_data p = (case part.body p of None \<Rightarrow> False | Some bd \<Rightarrow> truthy (data bd))"

definition part_data :: "part \<Rightarrow> jsstring" where
  "part_data p = (case part.body p of None \<Rightarrow> [] | Some bd \<Rightarrow> tmpl (data bd))"

definition decodable :: "part \<Rightarrow> bool" where
  "decodable p = (\<not> has_data p \<or> \<not> isl (base64Decode (part_data p)))"

text \<open>A part that sets \<open>result.html\<close>.\<close>

definition html_part :: "part \<Rightarrow> bool" where
  "html_part p = (has_data p \<and> mimeType p = Some (js ''text/html''))"

text \<open>What one character of the plain text becomes in the synthesized HTML.\<close>

definition escape_char :: "16 word \<Rightarrow> jsstring" where
  "escape_char c =
     (if c = 0x26 then js ''&amp;''
      else if c = 0x3C then js ''&lt;''
      else if c = 0x3E then js ''&gt;''
      else if c = 0x0A then js ''<br>''
      else [c])"

definition plain_to_html :: "jsstring \<Rightarrow> jsstring" where
  "plain_to_html p =
     replace_all 0x0A (js ''<br>'')
       (replace_all 0x3E (js ''&gt;'')
         (replace_all 0x3C (js ''&lt;'')
           (replace_all 0x26 (js ''&amp;'') p)))"

definition extractEmailBody :: "part \<Rightarrow> thrown + email_body" where
  "extractEmailBody payload =
     (case processPayload payload \<lparr>html = [], plain = []\<rparr> of
        Inl e \<Rightarrow> Inl e
      | Inr result \<Rightarrow>
          if html result = [] \<and> plain result \<noteq> []
          then Inr (result\<lparr>html := plain_to_html (plain result)\<rparr>)
          else Inr result)"

subsection \<open>parseSender\<close>

text \<open>
  The regular expression of \<open>parseSender\<close> is run by a backtracking matcher: from a
  position and the captures so far, \<open>rx_run\<close> lists the outcomes (remaining input and
  captures) in the order JavaScript tries them, greedy alternatives first. A round of a
  repetition or of an option that matches the empty string is not taken, as in
  JavaScript, so the length of the input bounds the rounds.
\<close>

datatype rx =
    Chr "16 word"         \<comment> \<open>one given character\<close>
  | NotChr "16 word"      \<comment> \<open>\<open>[^c]\<close>\<close>
  | Space                 \<comment> \<open>\<open>\s\<close>\<close>
  | Opt rx                \<comment> \<open>\<open>r?\<close>\<close>
  | Star rx               \<comment> \<open>\<open>r*\<close>\<close>
  | Plus rx               \<comment> \<open>\<open>r+\<close>\<close>
  | Cat rx rx
  | Group nat rx          \<comment> \<open>capture group number n\<close>

type_synonym rx_state = "jsstring \<times> (nat \<Rightarrow> jsstring option)"

text \<open>White space and line terminators of JavaScript: what \<open>\s\<close> matches and \<open>trim\<close> removes.\<close>

definition js_space :: "16 word \<Rightarrow> bool" where
  "js_space c =
     (c \<in> {0x09, 0x0A, 0x0B, 0x0C, 0x0D, 0x20, 0xA0, 0x1680, 0x2028, 0x2029, 0x202F,
            0x205F, 0x3000, 0xFEFF} \<or> (0x2000 \<le> c \<and> c \<le> 0x200A))"

primrec star_run :: "(rx_state \<Rightarrow> rx_state list) \<Rightarrow> nat \<Rightarrow> rx_state \<Rightarrow> rx_state list" where
  "star_run step 0 st = [st]"
| "star_run step (Suc n) st =
     concat (map (star_run step n)
               (filter (\<lambda>st'. length (fst st') < length (fst st)) (step st))) @ [st]"

primrec rx_run :: "rx \<Rightarrow> rx_state \<Rightarrow> rx_state list" where
  "rx_run (Chr c) st =
     (case fst st of [] \<Rightarrow> [] | x # xs \<Rightarrow> if x = c then [(xs, snd st)] else [])"
| "rx_run (NotChr c) st =
     (case fst st of [] \<Rightarrow> [] | x # xs \<Rightarrow> if x \<noteq> c then [(xs, snd st)] else [])"
| "rx_run Space st =
     (case fst st of [] \<Rightarrow> [] | x # xs \<Rightarrow> if js_space x then [(xs, snd st)] else [])"
| "rx_run (Opt r) st =
     filter (\<lambda>st'. length (fst st') < length (fst st)) (rx_run r st) @ [st]"
| "rx_run (Star r) st = star_run (rx_run r) (length (fst st)) st"
| "rx_run (Plus r) st =
     concat (map (\<lambda>st'. star_run (rx_run r) (length (fst st')) st') (rx_run r st))"
| "rx_run (Cat r1 r2) st = concat (map (rx_run r2) (rx_run r1 st))"
| "rx_run (Group i r) st =
     map (\<lambda>st'. (fst st', (snd st')(i \<mapsto> take (length (fst st) - length (fst st')) (fst st))))
         (rx_run r st)"

text \<open>
  \<open>s.match(/^r$/)\<close>: the first outcome that has used up the input, or \<open>null\<close>.
\<close>

definition rx_match :: "rx \<Rightarrow> jsstring \<Rightarrow> (nat \<Rightarrow> jsstring option) option" where
  "rx_match r s =
     (case filter (\<lambda>st. fst st = []) (rx_run r (s, Map.empty)) of
        [] \<Rightarrow> None
      | st # _ \<Rightarrow> Some (snd st))"

text \<open>\<open>/^(?:"?([^"]*)"?\s)?<?([^>]+)>?$/\<close>\<close>

definition sender_rx :: rx where
  "sender_rx =
     Cat (Opt (Cat (Opt (Chr 0x22)) (Cat (Group 1 (Star (NotChr 0x22)))
                 (Cat (Opt (Chr 0x22)) Space))))
         (Cat (Opt (Chr 0x3C)) (Cat (Group 2 (Plus (NotChr 0x3E))) (Opt (Chr 0x3E))))"

datatype sender = Sender (name: jsstring) (email: jsstring)

definition parseSender :: "jsstring option \<Rightarrow> sender" where
  "parseSender from' =
     (if \<not> truthy from' then Sender (js ''Unknown'') []
      else case rx_match sender_rx (tmpl from') of
             Some match \<Rightarrow>
               Sender (if truthy (match 1) then tmpl (match 1)
                       else takeWhile (\<lambda>c. c \<noteq> 0x40) (tmpl (match 2)))
                      (tmpl (match 2))
           | None \<Rightarrow> Sender (tmpl from') (tmpl from'))"

section \<open>gmail.js\<close>

subsection \<open>The provider and the platform\<close>

text \<open>
  One HTTP request: the base URL, the path and the query parameters (the pairs given to
  \<open>URLSearchParams\<close>, before they are serialised), the method, the headers the client
  sets, and the object given to \<open>JSON.stringify\<close> as the body.
\<close>

datatype request_body =
    SendBody (raw: jsstring) (threadId: "jsstring option")
  | ModifyBody (addLabelIds: "jsstring list") (removeLabelIds: "jsstring list")

record http_request =
  base :: jsstring
  path :: jsstring
  query :: "(jsstring \<times> jsstring) list"
  http_method :: jsstring
  authorization :: "jsstring option"
  content_type :: "jsstring option"
  body :: "request_body option"

text \<open>
  A JSON object of the provider, with the fields the client reads, typed as the provider
  documents them; every field may be missing, and \<open>{}\<close> has none. The field
  \<open>error\<close> is \<open>None\<close> also when the JSON has \<open>null\<close> or a value that is not an
  object there (\<open>error.error?.message\<close> is then \<open>undefined\<close>).
\<close>

record api_error =
  message :: "jsstring option"

record resource =
  error :: "api_error option"
  messages :: "jsstring option list option"   \<comment> \<open>the \<open>id\<close> of each entry of \<open>messages\<close>\<close>
  nextPageToken :: "jsstring option"
  resultSizeEstimate :: "nat option"
  id' :: "jsstring option"
  threadId :: "jsstring option"
  labelIds :: "jsstring list option"
  snippet :: "jsstring option"
  internalDate :: "jsstring option"
  payload :: "part option"

definition empty_object :: resource where
  "empty_object =
     \<lparr>error = None, messages = None, nextPageToken = None, resultSizeEstimate = None,
      id' = None, threadId = None, labelIds = None, snippet = None, internalDate = None,
      payload = None\<rparr>"

text \<open>
  A parsed JSON value: \<open>null\<close>; an object; or another value (a string, a number, a
  boolean, an array), on which every property the client reads is \<open>undefined\<close>, as on
  \<open>{}\<close>. \<open>as_object\<close> is the first property read on such a value: on \<open>null\<close> it
  throws a \<open>TypeError\<close>.
\<close>

datatype json = Null | Other | Object resource

fun as_object :: "json \<Rightarrow> thrown + resource" where
  "as_object Null = Inl TypeError"
| "as_object Other = Inr empty_object"
| "as_object (Object j) = Inr j"

text \<open>
  A response: its status (an \<open>unsigned short\<close> in the Fetch Standard) and its body,
  which is empty, or text that is not JSON, or the text of a JSON value.
\<close>

datatype content = NoText | NotJson | Json json

record response =
  status :: "16 word"
  content :: content

definition ok :: "response \<Rightarrow> bool" where
  "ok r = (200 \<le> status r \<and> status r \<le> 299)"

record settings =
  notificationsEnabled :: "bool option"

record notification =
  type :: jsstring
  iconUrl :: jsstring
  title :: jsstring
  message :: jsstring
  priority :: nat

text \<open>
  What the platform answers in one run: \<open>fetch\<close> resolves to a response or rejects;
  \<open>chrome.identity.getAuthToken\<close> calls back with \<open>chrome.runtime.lastError\<close> and a
  token (the argument is \<open>interactive\<close>); \<open>chrome.storage.local.get\<close> and
  \<open>chrome.notifications.create\<close> resolve or reject; \<open>chrome.runtime.getURL\<close> turns a
  path inside the extension into a URL. When several promises that run at the same time
  are rejected, \<open>first_rejected\<close> says which of them (given by their positions) is
  rejected first in time.
\<close>

record platform =
  fetch :: "http_request \<Rightarrow> thrown + response"
  getAuthToken :: "bool \<Rightarrow> jsstring option \<times> jsstring option"
  storage_get :: "thrown + settings"
  notifications_create :: "jsstring \<Rightarrow> notification \<Rightarrow> thrown option"
  getURL :: "jsstring \<Rightarrow> jsstring"
  first_rejected :: "nat list \<Rightarrow> nat"

text \<open>
  The state of the service worker: the token of the \<open>gmailAPI\<close> singleton and
  \<open>lastKnownMessageIds\<close>; and what it has done to the outside: the requests issued and
  the notifications created, oldest first.
\<close>

record world =
  accessToken :: "jsstring option"
  lastKnownMessageIds :: "jsstring option set"
  requests :: "http_request list"
  notifications :: "(jsstring \<times> notification) list"

definition GMAIL_API_BASE :: jsstring where
  "GMAIL_API_BASE = js ''https://gmail.googleapis.com/gmail/v1/users/me''"

text \<open>
  A number as a template literal or \<open>toString\<close> prints it. The numbers of the model
  are the status of a response and \<open>maxResults\<close>, a non-negative safe integer
  (below \<open>2^53\<close>); both are printed in decimal.
\<close>

function show_nat :: "nat \<Rightarrow> jsstring" where
  "show_nat n =
     (if n < 10 then [of_nat (48 + n)] else show_nat (n div 10) @ [of_nat (48 + n mod 10)])"
  by pat_completeness auto
termination
  by (relation "measure (\<lambda>n. n)") auto

subsection \<open>request\<close>

text \<open>
  The request \<open>request\<close> hands to \<open>fetch\<close>, and \<open>error.error?.message\<close> read
  from the body of a response: \<open>response.json()\<close> gives the parsed body, and the
  \<open>catch\<close> gives \<open>{}\<close> when the body is empty or not JSON.
\<close>

definition api_request ::
  "world \<Rightarrow> jsstring \<Rightarrow> (jsstring \<times> jsstring) list \<Rightarrow> jsstring \<Rightarrow> request_body option
     \<Rightarrow> http_request" where
  "api_request w endpoint params meth payload_body =
     \<lparr>base = GMAIL_API_BASE, path = endpoint, query = params, http_method = meth,
      authorization = Some (js ''Bearer '' @ tmpl (accessToken w)),
      content_type = Some (js ''application/json''),
      body = payload_body\<rparr>"

definition provider_message :: "response \<Rightarrow> thrown + jsstring option" where
  "provider_message response =
     (let error = (case content response of Json j \<Rightarrow> j | _ \<Rightarrow> Object empty_object)
      in case as_object error of
           Inl e \<Rightarrow> Inl e
         | Inr j \<Rightarrow> Inr (case resource.error j of None \<Rightarrow> None | Some e \<Rightarrow> api_error.message e))"

text \<open>What \<open>request\<close> throws for a response that is not \<open>ok\<close>.\<close>

definition http_error :: "response \<Rightarrow> thrown" where
  "http_error response =
     (if status response = 401 then Error (js ''AUTH_EXPIRED'')
      else case provider_message response of
             Inl e \<Rightarrow> e
           | Inr msg \<Rightarrow>
               Error (if truthy msg then tmpl msg
                      else js ''API Error: '' @ show_nat (unat (status response))))"

definition request ::
  "platform \<Rightarrow> jsstring \<Rightarrow> (jsstring \<times> jsstring) list \<Rightarrow> jsstring \<Rightarrow> request_body option
     \<Rightarrow> world \<Rightarrow> (thrown + json) \<times> world" where
  "request env endpoint params meth payload_body w =
     (if \<not> truthy (accessToken w)
      then (Inl (Error (js ''No access token available. Please sign in.'')), w)
      else
        let req = api_request w endpoint params meth payload_body;
            w' = w\<lparr>requests := requests w @ [req]\<rparr>
        in case fetch env req of
             Inl e \<Rightarrow> (Inl e, w')
           | Inr response \<Rightarrow>
               if \<not> ok response then (Inl (http_error response), w')
               else
                 (case content response of
                    NoText \<Rightarrow> (Inr (Object empty_object), w')
                  | NotJson \<Rightarrow> (Inl SyntaxError, w')
                  | Json j \<Rightarrow> (Inr j, w')))"

subsection \<open>getProfile\<close>

definition getProfile :: "platform \<Rightarrow> world \<Rightarrow> (thrown + json) \<times> world" where
  "getProfile env w = request env (js ''/profile'') [] (js ''GET'') None w"

subsection \<open>getMessage\<close>

text \<open>The object \<open>getMessage\<close> returns; \<open>body\<close> is present only for the full format.\<close>

record parsed_message =
  id' :: "jsstring option"
  threadId :: "jsstring option"
  labelIds :: "jsstring list"
  snippet :: "jsstring option"
  internalDate :: "jsstring option"
  headers :: jsobject
  sender :: sender
  isUnread :: "bool option"
  isStarred :: "bool option"
  isInbox :: "bool option"
  body :: "email_body option"

text \<open>\<open>response.labelIds?.includes(label)\<close>\<close>

definition includes_label :: "jsstring list option \<Rightarrow> jsstring \<Rightarrow> bool option" where
  "includes_label ls l = (case ls of None \<Rightarrow> None | Some xs \<Rightarrow> Some (l \<in> set xs))"

text \<open>
  What \<open>getMessage\<close> does with the response once \<open>request\<close> has returned it and
  \<open>response.payload\<close> has been read: the parsing has no effect on the state.
\<close>

definition parse_message :: "jsstring \<Rightarrow> resource \<Rightarrow> thrown + parsed_message" where
  "parse_message format response =
     (let hdrs = parseEmailHeaders
                   (case resource.payload response of
                      None \<Rightarrow> Part None None None None
                    | Some p \<Rightarrow> p);
          sndr = parseSender (map_of hdrs (js ''from''));
          parsed = \<lparr>parsed_message.id' = resource.id' response,
                    threadId = resource.threadId response,
                    labelIds = (case resource.labelIds response of None \<Rightarrow> [] | Some ls \<Rightarrow> ls),
                    snippet = resource.snippet response,
                    internalDate = resource.internalDate response,
                    headers = hdrs,
                    sender = sndr,
                    isUnread = includes_label (resource.labelIds response) (js ''UNREAD''),
                    isStarred = includes_label (resource.labelIds response) (js ''STARRED''),
                    isInbox = includes_label (resource.labelIds response) (js ''INBOX''),
                    body = None\<rparr>
      in case resource.payload response of
           Some p \<Rightarrow>
             if format = js ''full'' then
               (case extractEmailBody p of
                  Inl e \<Rightarrow> Inl e
                | Inr b \<Rightarrow> Inr (parsed\<lparr>parsed_message.body := Some b\<rparr>))
             else Inr parsed
         | None \<Rightarrow> Inr parsed)"

definition getMessage ::
  "platform \<Rightarrow> jsstring option \<Rightarrow> jsstring option \<Rightarrow> world
     \<Rightarrow> (thrown + parsed_message) \<times> world" where
  "getMessage env mid format_arg w =
     (let format = (case format_arg of None \<Rightarrow> js ''full'' | Some f \<Rightarrow> f) in
      case request env (js ''/messages/'' @ tmpl mid) [(js ''format'', format)] (js ''GET'') None w of
        (Inl e, w') \<Rightarrow> (Inl e, w')
      | (Inr response, w') \<Rightarrow>
          (case as_object response of
             Inl e \<Rightarrow> (Inl e, w')
           | Inr r \<Rightarrow> (parse_message format r, w')))"

text \<open>The request of \<open>getMessage\<close>.\<close>

definition message_request :: "world \<Rightarrow> jsstring option \<Rightarrow> jsstring \<Rightarrow> http_request" where
  "message_request w mid format =
     api_request w (js ''/messages/'' @ tmpl mid) [(js ''format'', format)] (js ''GET'') None"

subsection \<open>listMessages\<close>

record list_options =
  filter' :: "jsstring option"
  maxResults :: "53 word option"
  pageToken :: "jsstring option"
  q :: "jsstring option"

record list_result =
  messages :: "parsed_message list"
  nextPageToken :: "jsstring option"
  resultSizeEstimate :: "nat option"

definition trim :: "jsstring \<Rightarrow> jsstring" where
  "trim s = rev (dropWhile js_space (rev (dropWhile js_space s)))"

text \<open>The query parameters of the list call, in the order \<open>params.set\<close> adds them.\<close>

definition list_params :: "list_options \<Rightarrow> (jsstring \<times> jsstring) list" where
  "list_params opts =
     (let filter_name = (case filter' opts of None \<Rightarrow> js ''inbox'' | Some f \<Rightarrow> f);
          max_results = (case maxResults opts of None \<Rightarrow> 20 | Some n \<Rightarrow> n);
          params = [(js ''maxResults'', show_nat (unat max_results))];
          params = (if truthy (pageToken opts)
                    then AList.update (js ''pageToken'') (tmpl (pageToken opts)) params
                    else params);
          query = (if truthy (q opts) then tmpl (q opts) else []);
          label = (if filter_name = js ''inbox'' then js ''INBOX''
                   else if filter_name = js ''unread'' then js ''INBOX''
                   else if filter_name = js ''starred'' then js ''STARRED''
                   else if filter_name = js ''sent'' then js ''SENT''
                   else js ''INBOX'');
          params = AList.update (js ''labelIds'') label params;
          query = (if filter_name = js ''unread'' then js ''is:unread '' @ query else query)
      in if trim query \<noteq> [] then AList.update (js ''q'') (trim query) params else params)"

text \<open>
  \<open>messages.map(msg => this.getMessage(msg.id, 'metadata'))\<close> starts every detail
  fetch, in the order of the list, before any of them is awaited: each call runs up to
  its \<open>fetch\<close> when it is made. \<open>fetch_details\<close> gives the outcome of every call.
\<close>

fun fetch_details ::
  "platform \<Rightarrow> jsstring option list \<Rightarrow> world \<Rightarrow> (thrown + parsed_message) list \<times> world" where
  "fetch_details env [] w = ([], w)"
| "fetch_details env (mid # mids) w =
     (case getMessage env mid (Some (js ''metadata'')) w of
        (r, w') \<Rightarrow> (case fetch_details env mids w' of (rs, w'') \<Rightarrow> (r # rs, w'')))"

text \<open>
  \<open>Promise.all\<close>: the results in the order of the promises when all are fulfilled, a
  rejection when one is rejected, with the reason of the promise that is rejected first
  in time. Which one that is, the platform decides (\<open>first\<close>); should it name a
  promise that is not rejected, the first rejected one in the list is taken.
\<close>

definition Promise_all :: "(nat list \<Rightarrow> nat) \<Rightarrow> (thrown + 'a) list \<Rightarrow> thrown + 'a list" where
  "Promise_all first rs =
     (let rejected = filter (\<lambda>i. isl (rs ! i)) [0..<length rs] in
      if rejected = [] then Inr (map projr rs)
      else Inl (projl (rs ! (if first rejected \<in> set rejected then first rejected
                              else hd rejected))))"

definition listMessages ::
  "platform \<Rightarrow> list_options \<Rightarrow> world \<Rightarrow> (thrown + list_result) \<times> world" where
  "listMessages env opts w =
     (case request env (js ''/messages'') (list_params opts) (js ''GET'') None w of
        (Inl e, w') \<Rightarrow> (Inl e, w')
      | (Inr response, w') \<Rightarrow>
          (case as_object response of
             Inl e \<Rightarrow> (Inl e, w')
           | Inr r \<Rightarrow>
               let msgs = (case resource.messages r of None \<Rightarrow> [] | Some ms \<Rightarrow> ms) in
               case fetch_details env msgs w' of
                 (results, w'') \<Rightarrow>
                   (case Promise_all (first_rejected env) results of
                      Inl e \<Rightarrow> (Inl e, w'')
                    | Inr detailedMessages \<Rightarrow>
                        (Inr \<lparr>messages = detailedMessages,
                              nextPageToken = resource.nextPageToken r,
                              resultSizeEstimate = resource.resultSizeEstimate r\<rparr>, w''))))"

subsection \<open>sendMessage, replyToMessage and forwardMessage\<close>

definition sendMessage ::
  "platform \<Rightarrow> jsstring option \<Rightarrow> jsstring option \<Rightarrow> jsstring option \<Rightarrow> jsstring option
     \<Rightarrow> jsstring option \<Rightarrow> jsstring option \<Rightarrow> world \<Rightarrow> (thrown + json) \<times> world" where
  "sendMessage env to_arg subject_arg body_arg threadId_arg inReplyTo_arg references_arg w =
     (case createMimeMessage \<lparr>to = to_arg, subject = subject_arg, body = body_arg, from = None,
                              inReplyTo = inReplyTo_arg, references = references_arg\<rparr> of
        Inl e \<Rightarrow> (Inl e, w)
      | Inr raw_text \<Rightarrow>
          request env (js ''/messages/send'') [] (js ''POST'')
            (Some (SendBody raw_text (if truthy threadId_arg then threadId_arg else None))) w)"

definition startsWith :: "jsstring \<Rightarrow> jsstring \<Rightarrow> bool" where
  "startsWith s p = (take (length p) s = p)"

text \<open>The subject and the \<open>References\<close> header that \<open>replyToMessage\<close> derives.\<close>

definition reply_subject :: "jsstring option \<Rightarrow> jsstring option" where
  "reply_subject subj =
     (if (case subj of None \<Rightarrow> False | Some s \<Rightarrow> startsWith s (js ''Re:'')) then subj
      else Some (js ''Re: '' @ (if truthy subj then tmpl subj else [])))"

definition reply_references :: "jsstring option \<Rightarrow> jsstring option \<Rightarrow> jsstring option" where
  "reply_references refs msgid =
     (if truthy refs then Some (tmpl refs @ js '' '' @ tmpl msgid) else msgid)"

definition replyToMessage ::
  "platform \<Rightarrow> jsstring option \<Rightarrow> jsstring option \<Rightarrow> world \<Rightarrow> (thrown + json) \<times> world" where
  "replyToMessage env messageId body_arg w =
     (case getMessage env messageId (Some (js ''full'')) w of
        (Inl e, w') \<Rightarrow> (Inl e, w')
      | (Inr original, w') \<Rightarrow>
          let hdrs = map_of (parsed_message.headers original);
              subj = reply_subject (hdrs (js ''subject''));
              to_arg = hdrs (js ''from'')
          in sendMessage env to_arg subj body_arg (parsed_message.threadId original)
               (hdrs (js ''message-id''))
               (reply_references (hdrs (js ''references'')) (hdrs (js ''message-id''))) w')"

text \<open>
  The subject and the body that \<open>forwardMessage\<close> derives. The body is the template
  literal of the source, whose line breaks are line feeds, trimmed; \<open>additionalBody\<close>
  is \<open>''\<close> when the argument is \<open>undefined\<close>.
\<close>

definition forward_subject :: "jsstring option \<Rightarrow> jsstring option" where
  "forward_subject subj =
     (if (case subj of None \<Rightarrow> False | Some s \<Rightarrow> startsWith s (js ''Fwd:'')) then subj
      else Some (js ''Fwd: '' @ (if truthy subj then tmpl subj else [])))"

definition forwarded_content :: "parsed_message \<Rightarrow> jsstring \<Rightarrow> jsstring" where
  "forwarded_content original additionalBody =
     (let hdrs = map_of (parsed_message.headers original);
          plain_text = map_option plain (parsed_message.body original);
          originalBody = (if truthy plain_text then tmpl plain_text
                          else if truthy (parsed_message.snippet original)
                               then tmpl (parsed_message.snippet original)
                          else [])
      in trim ([0x0A] @ additionalBody @ [0x0A, 0x0A]
               @ js ''---------- Forwarded message ---------'' @ [0x0A]
               @ js ''From: '' @ tmpl (hdrs (js ''from'')) @ [0x0A]
               @ js ''Date: '' @ tmpl (hdrs (js ''date'')) @ [0x0A]
               @ js ''Subject: '' @ tmpl (hdrs (js ''subject'')) @ [0x0A]
               @ js ''To: '' @ tmpl (hdrs (js ''to'')) @ [0x0A, 0x0A]
               @ originalBody @ [0x0A] @ js ''    ''))"

definition forwardMessage ::
  "platform \<Rightarrow> jsstring option \<Rightarrow> jsstring option \<Rightarrow> jsstring option \<Rightarrow> world
     \<Rightarrow> (thrown + json) \<times> world" where
  "forwardMessage env messageId to_arg additionalBody w =
     (case getMessage env messageId (Some (js ''full'')) w of
        (Inl e, w') \<Rightarrow> (Inl e, w')
      | (Inr original, w') \<Rightarrow>
          let hdrs = map_of (parsed_message.headers original);
              subj = forward_subject (hdrs (js ''subject''));
              forwardedContent =
                forwarded_content original (case additionalBody of None \<Rightarrow> [] | Some s \<Rightarrow> s)
          in sendMessage env to_arg subj (Some forwardedContent) None None None w')"

subsection \<open>Trash, delete and labels\<close>

text \<open>
  \<open>addLabelIds\<close> and \<open>removeLabelIds\<close> are \<open>[]\<close> when the argument is
  \<open>undefined\<close>.
\<close>

definition trashMessage :: "platform \<Rightarrow> jsstring option \<Rightarrow> world \<Rightarrow> (thrown + json) \<times> world" where
  "trashMessage env mid w =
     request env (js ''/messages/'' @ tmpl mid @ js ''/trash'') [] (js ''POST'') None w"

definition deleteMessage :: "platform \<Rightarrow> jsstring option \<Rightarrow> world \<Rightarrow> (thrown + json) \<times> world" where
  "deleteMessage env mid w = request env (js ''/messages/'' @ tmpl mid) [] (js ''DELETE'') None w"

definition modifyLabels ::
  "platform \<Rightarrow> jsstring option \<Rightarrow> jsstring list option \<Rightarrow> jsstring list option \<Rightarrow> world
     \<Rightarrow> (thrown + json) \<times> world" where
  "modifyLabels env mid add_arg remove_arg w =
     (let added = (case add_arg of None \<Rightarrow> [] | Some ls \<Rightarrow> ls);
          removed = (case remove_arg of None \<Rightarrow> [] | Some ls \<Rightarrow> ls)
      in request env (js ''/messages/'' @ tmpl mid @ js ''/modify'') [] (js ''POST'')
           (Some (ModifyBody added removed)) w)"

definition markAsRead :: "platform \<Rightarrow> jsstring option \<Rightarrow> world \<Rightarrow> (thrown + json) \<times> world" where
  "markAsRead env mid w = modifyLabels env mid (Some []) (Some [js ''UNREAD'']) w"

definition markAsUnread :: "platform \<Rightarrow> jsstring option \<Rightarrow> world \<Rightarrow> (thrown + json) \<times> world" where
  "markAsUnread env mid w = modifyLabels env mid (Some [js ''UNREAD'']) (Some []) w"

definition starMessage :: "platform \<Rightarrow> jsstring option \<Rightarrow> world \<Rightarrow> (thrown + json) \<times> world" where
  "starMessage env mid w = modifyLabels env mid (Some [js ''STARRED'']) (Some []) w"

definition unstarMessage :: "platform \<Rightarrow> jsstring option \<Rightarrow> world \<Rightarrow> (thrown + json) \<times> world" where
  "unstarMessage env mid w = modifyLabels env mid (Some []) (Some [js ''STARRED'']) w"

definition toggleStar ::
  "platform \<Rightarrow> jsstring option \<Rightarrow> bool \<Rightarrow> world \<Rightarrow> (thrown + json) \<times> world" where
  "toggleStar env mid isCurrentlyStarred w =
     (if isCurrentlyStarred then unstarMessage env mid w else starMessage env mid w)"

subsection \<open>Failures of the provider\<close>

text \<open>
  The outcome of an operation (its result and the state it leaves) passes on the response
  \<open>resp\<close> as \<open>failure\<close>: when \<open>resp\<close> is what the provider answered to the last
  request the operation issued, the operation has failed with \<open>failure\<close>.
\<close>

definition surfaces :: "platform \<Rightarrow> response \<Rightarrow> thrown \<Rightarrow> (thrown + 'a) \<times> world \<Rightarrow> bool" where
  "surfaces env resp failure outcome \<longleftrightarrow>
     (fetch env (last (requests (snd outcome))) = Inr resp \<longrightarrow> fst outcome = Inl failure)"

section \<open>The background service worker\<close>

definition NOTIFICATION_ID_PREFIX :: jsstring where
  "NOTIFICATION_ID_PREFIX = js ''exmail-new-''"

text \<open>
  \<open>authenticateSilently\<close>: a \<open>lastError\<close> rejects the inner promise, which the
  \<open>catch\<close> turns into \<open>null\<close>; a truthy token is stored in the API client.
\<close>

definition authenticateSilently :: "platform \<Rightarrow> world \<Rightarrow> jsstring option \<times> world" where
  "authenticateSilently env w =
     (case getAuthToken env False of
        (Some lastError, token) \<Rightarrow> (None, w)
      | (None, token) \<Rightarrow>
          if truthy token then (token, w\<lparr>accessToken := token\<rparr>) else (None, w))"

text \<open>
  \<open>signOut\<close>: with a token, the revoke request is sent (its failure is caught) and the
  callback of \<open>removeCachedAuthToken\<close> clears the token and the set; without one, only
  the token is cleared.
\<close>

definition signOut :: "platform \<Rightarrow> world \<Rightarrow> world" where
  "signOut env w =
     (case getAuthToken env False of
        (lastError, token) \<Rightarrow>
          if truthy token then
            (let revoke = \<lparr>base = js ''https://accounts.google.com/o/oauth2/revoke'', path = [],
                           query = [(js ''token'', tmpl token)], http_method = js ''GET'',
                           authorization = None, content_type = None, body = None\<rparr>;
                 w' = w\<lparr>requests := requests w @ [revoke]\<rparr>
             in w'\<lparr>accessToken := None, lastKnownMessageIds := {}\<rparr>)
          else w\<lparr>accessToken := None\<rparr>)"

definition notification_for :: "platform \<Rightarrow> parsed_message \<Rightarrow> notification" where
  "notification_for env msg =
     \<lparr>type = js ''basic'',
      iconUrl = getURL env (js ''icons/icon128.png''),
      title = (if sender.name (sender msg) \<noteq> [] then sender.name (sender msg)
               else js ''New Email''),
      message = (if truthy (map_of (parsed_message.headers msg) (js ''subject''))
                 then tmpl (map_of (parsed_message.headers msg) (js ''subject''))
                 else if truthy (parsed_message.snippet msg) then tmpl (parsed_message.snippet msg)
                 else js ''You have a new email''),
      priority = 2\<rparr>"

text \<open>The notification raised for a message: its id and its options.\<close>

definition raised :: "platform \<Rightarrow> parsed_message \<Rightarrow> jsstring \<times> notification" where
  "raised env msg =
     (NOTIFICATION_ID_PREFIX @ tmpl (parsed_message.id' msg), notification_for env msg)"

definition showNotification :: "platform \<Rightarrow> parsed_message \<Rightarrow> world \<Rightarrow> thrown option \<times> world" where
  "showNotification env msg w =
     (let notificationId = NOTIFICATION_ID_PREFIX @ tmpl (parsed_message.id' msg) in
      case notifications_create env notificationId (notification_for env msg) of
        Some e \<Rightarrow> (Some e, w)
      | None \<Rightarrow>
          (None, w\<lparr>notifications := notifications w
                                      @ [(notificationId, notification_for env msg)]\<rparr>))"

text \<open>
  The loop of \<open>checkForNewEmails\<close> over the fetched messages; \<open>known\<close> is
  \<open>lastKnownMessageIds\<close>, which the loop does not change. A rejected notification ends
  the loop with the exception.
\<close>

fun notify_new ::
  "platform \<Rightarrow> jsstring option set \<Rightarrow> parsed_message list \<Rightarrow> world \<Rightarrow> thrown option \<times> world" where
  "notify_new env known [] w = (None, w)"
| "notify_new env known (msg # rest) w =
     (if parsed_message.id' msg \<notin> known then
        (case showNotification env msg w of
           (Some e, w') \<Rightarrow> (Some e, w')
         | (None, w') \<Rightarrow> notify_new env known rest w')
      else notify_new env known rest w)"

definition unread_options :: list_options where
  "unread_options =
     \<lparr>filter' = Some (js ''unread''), maxResults = Some 10, pageToken = None, q = None\<rparr>"

text \<open>
  \<open>checkForNewEmails\<close>: every exception inside the \<open>try\<close> is caught and only logged,
  so the function always returns; what remains is the state it leaves.
\<close>

definition checkForNewEmails :: "platform \<Rightarrow> world \<Rightarrow> world" where
  "checkForNewEmails env w =
     (case authenticateSilently env w of
        (token, w1) \<Rightarrow>
          if \<not> truthy token then w1
          else case storage_get env of
                 Inl e \<Rightarrow> w1
               | Inr stored \<Rightarrow>
                   if notificationsEnabled stored = Some False then w1
                   else case listMessages env unread_options w1 of
                          (Inl e, w2) \<Rightarrow> w2
                        | (Inr result, w2) \<Rightarrow>
                            let currentIds = set (map parsed_message.id' (list_result.messages result)) in
                            case (if lastKnownMessageIds w2 \<noteq> {}
                                  then notify_new env (lastKnownMessageIds w2)
                                         (list_result.messages result) w2
                                  else (None, w2)) of
                              (Some e, w3) \<Rightarrow> w3
                            | (None, w3) \<Rightarrow> w3\<lparr>lastKnownMessageIds := currentIds\<rparr>)"

section \<open>Platforms and states for the examples\<close>

text \<open>
  A platform with no cached credential, no network, no stored settings and a
  notification service that works, where the first promise of a list is the first to be
  rejected; and a state with nothing in it. The examples change the fields they need.
\<close>

definition quiet_platform :: platform where
  "quiet_platform =
     \<lparr>fetch = (\<lambda>req. Inl (Rejected (js ''Failed to fetch''))),
      getAuthToken = (\<lambda>interactive. (None, None)),
      storage_get = Inr \<lparr>notificationsEnabled = None\<rparr>,
      notifications_create = (\<lambda>nid options. None),
      getURL = (\<lambda>p. js ''chrome-extension://exmail/'' @ p),
      first_rejected = hd\<rparr>"

definition initial_world :: world where
  "initial_world =
     \<lparr>accessToken = None, lastKnownMessageIds = {}, requests = [], notifications = []\<rparr>"

text \<open>
  A state with a token in the API client; a platform whose provider answers every
  request with the same response; and a platform changed so that its notification service
  rejects every notification.
\<close>

definition signed_in :: world where
  "signed_in = initial_world\<lparr>accessToken := Some (js ''token'')\<rparr>"

definition answering :: "response \<Rightarrow> platform" where
  "answering resp = quiet_platform\<lparr>fetch := (\<lambda>req. Inr resp)\<rparr>"

definition rejecting_notifications :: "platform \<Rightarrow> platform" where
  "rejecting_notifications env =
     env\<lparr>notifications_create :=
           (\<lambda>nid options. Some (Rejected (js ''Unable to download all specified images.'')))\<rparr>"

text \<open>A response with a JSON body, and the body of an error of the provider.\<close>

definition json_response :: "16 word \<Rightarrow> resource \<Rightarrow> response" where
  "json_response code j = \<lparr>status = code, content = Json (Object j)\<rparr>"

definition error_object :: "jsstring \<Rightarrow> resource" where
  "error_object msg = empty_object\<lparr>resource.error := Some \<lparr>api_error.message = Some msg\<rparr>\<rparr>"

text \<open>
  A platform whose provider lists the messages \<open>a\<close> and \<open>b\<close> and fails on both
  detail fetches: it answers 500 for \<open>a\<close> and 401 for \<open>b\<close>. The fetch for
  \<open>a\<close>, issued first, is also the first to be rejected.
\<close>

definition failing_details :: platform where
  "failing_details =
     quiet_platform
       \<lparr>fetch := (\<lambda>req.
          if path req = js ''/messages''
          then Inr (json_response 200
                      (empty_object\<lparr>resource.messages := Some [Some (js ''a''), Some (js ''b'')]\<rparr>))
          else if path req = js ''/messages/b'' then Inr \<lparr>status = 401, content = NoText\<rparr>
          else Inr \<lparr>status = 500, content = NoText\<rparr>)\<rparr>"

text \<open>
  A provider with a mailbox: the list call answers with the given ids, and the detail
  call for an id answers with a message that has this id and nothing else. And a platform
  with a cached token and this provider.
\<close>

definition mailbox_fetch :: "jsstring list \<Rightarrow> http_request \<Rightarrow> thrown + response" where
  "mailbox_fetch unread req =
     (if path req = js ''/messages''
      then Inr (json_response 200 (empty_object\<lparr>resource.messages := Some (map Some unread)\<rparr>))
      else Inr (json_response 200 (empty_object\<lparr>resource.id' := Some (drop 10 (path req))\<rparr>)))"

definition mailbox_platform :: "jsstring list \<Rightarrow> platform" where
  "mailbox_platform unread =
     quiet_platform
       \<lparr>fetch := mailbox_fetch unread,
        getAuthToken := (\<lambda>interactive. (None, Some (js ''token'')))\<rparr>"

section \<open>Round trip of the codecs\<close>

text \<open>
  The equations of the loops are unfolded by hand, one round at a time.
\<close>

declare pad4.simps [simp del] show_nat.simps [simp del]

subsection \<open>UTF-8 and UTF-16\<close>

lemma digit_div_mod: "r < m \<Longrightarrow> (k * m + r) div m = k \<and> (k * m + r) mod m = (r::nat)"
  by simp

lemma split64:
  fixes cp :: nat
  shows "cp = cp div 0x40 * 0x40 + cp mod 0x40"
    and "cp div 0x40 = cp div 0x1000 * 0x40 + cp div 0x40 mod 0x40"
    and "cp div 0x1000 = cp div 0x40000 * 0x40 + cp div 0x1000 mod 0x40"
proof -
  show "cp = cp div 0x40 * 0x40 + cp mod 0x40" by simp
  have "cp div 0x1000 = cp div 0x40 div 0x40" by (simp add: div_mult2_eq[symmetric])
  then show "cp div 0x40 = cp div 0x1000 * 0x40 + cp div 0x40 mod 0x40" by simp
  have "cp div 0x40000 = cp div 0x1000 div 0x40" by (simp add: div_mult2_eq[symmetric])
  then show "cp div 0x1000 = cp div 0x40000 * 0x40 + cp div 0x1000 mod 0x40" by simp
qed

lemma cont_byte: "d < 0x40 \<Longrightarrow> (0x80 + d) mod 0x40 = (d::nat)"
  using digit_div_mod[of d 64 2] by simp

lemma dec1: "cp < 0x80 \<Longrightarrow> utf8_decode 0 0 0 0x80 0xBF (cp # rest) = cp # utf8_decode 0 0 0 0x80 0xBF rest"
  by simp

lemma dec2:
  assumes "2 \<le> d1" "d1 < 0x20" "d0 < 0x40"
  shows "utf8_decode 0 0 0 0x80 0xBF ((0xC0 + d1) # (0x80 + d0) # rest)
         = (d1 * 0x40 + d0) # utf8_decode 0 0 0 0x80 0xBF rest"
proof -
  have a: "(0xC0 + d1) mod 0x20 = d1"
    using digit_div_mod[of d1 32 6] assms by simp
  show ?thesis using assms by (auto simp: a cont_byte)
qed

lemma dec3:
  assumes "d2 < 0x10" "d1 < 0x40" "d0 < 0x40" "d2 = 0 \<longrightarrow> 0x20 \<le> d1" "d2 = 0xD \<longrightarrow> d1 < 0x20"
  shows "utf8_decode 0 0 0 0x80 0xBF ((0xE0 + d2) # (0x80 + d1) # (0x80 + d0) # rest)
         = ((d2 * 0x40 + d1) * 0x40 + d0) # utf8_decode 0 0 0 0x80 0xBF rest"
proof -
  have a: "(0xE0 + d2) mod 0x10 = d2"
    using digit_div_mod[of d2 16 14] assms by simp
  show ?thesis using assms by (auto simp: a cont_byte)
qed

lemma dec4:
  assumes "d3 < 0x5" "d2 < 0x40" "d1 < 0x40" "d0 < 0x40" "d3 = 0 \<longrightarrow> 0x10 \<le> d2" "d3 = 0x4 \<longrightarrow> d2 < 0x10"
  shows "utf8_decode 0 0 0 0x80 0xBF ((0xF0 + d3) # (0x80 + d2) # (0x80 + d1) # (0x80 + d0) # rest)
         = (((d3 * 0x40 + d2) * 0x40 + d1) * 0x40 + d0) # utf8_decode 0 0 0 0x80 0xBF rest"
proof -
  have a: "(0xF0 + d3) mod 0x8 = d3"
    using digit_div_mod[of d3 8 30] assms by simp
  show ?thesis using assms by (auto simp: a cont_byte)
qed


declare utf8_decode.simps [simp del]

lemma utf8_decode_bytes:
  assumes "scalar cp"
  shows "utf8_decode 0 0 0 0x80 0xBF (utf8_bytes cp @ rest) = cp # utf8_decode 0 0 0 0x80 0xBF rest"
proof -
  note s = split64[of cp]
  have b: "cp mod 0x40 < 0x40" "cp div 0x40 mod 0x40 < 0x40" "cp div 0x1000 mod 0x40 < 0x40"
    by simp_all
  consider "cp < 0x80" | "0x80 \<le> cp" "cp < 0x800" | "0x800 \<le> cp" "cp < 0x10000"
    | "0x10000 \<le> cp" by linarith
  then show ?thesis
  proof cases
    case 1
    then show ?thesis by (simp add: utf8_bytes_def dec1)
  next
    case 2
    have "2 \<le> cp div 0x40" "cp div 0x40 < 0x20" using 2 by simp_all
    from dec2[OF this b(1), of rest] s(1) 2 show ?thesis
      by (simp add: utf8_bytes_def)
  next
    case 3
    have d: "cp div 0x1000 < 0x10" using 3 by simp
    have e: "cp div 0x1000 = 0 \<longrightarrow> 0x20 \<le> cp div 0x40 mod 0x40"
      using 3 s(1) s(2) b by linarith
    have f: "cp div 0x1000 = 0xD \<longrightarrow> cp div 0x40 mod 0x40 < 0x20"
      using 3 s(1) s(2) b assms unfolding scalar_def by linarith
    have g: "(cp div 0x1000 * 0x40 + cp div 0x40 mod 0x40) * 0x40 + cp mod 0x40 = cp"
      using s(1) s(2) by simp
    from dec3[OF d b(2) b(1) e f, of rest] g 3 show ?thesis
      by (simp add: utf8_bytes_def)
  next
    case 4
    have d: "cp div 0x40000 < 0x5"
      using assms unfolding scalar_def by (intro less_mult_imp_div_less) simp
    have e: "cp div 0x40000 = 0 \<longrightarrow> 0x10 \<le> cp div 0x1000 mod 0x40"
      using 4 s b by linarith
    have f: "cp div 0x40000 = 0x4 \<longrightarrow> cp div 0x1000 mod 0x40 < 0x10"
      using 4 s b assms unfolding scalar_def by linarith
    have g: "((cp div 0x40000 * 0x40 + cp div 0x1000 mod 0x40) * 0x40 + cp div 0x40 mod 0x40) * 0x40
               + cp mod 0x40 = cp"
      using s by simp
    from dec4[OF d b(3) b(2) b(1) e f, of rest] g 4 show ?thesis
      by (simp add: utf8_bytes_def)
  qed
qed

lemma utf8_decode_encode:
  "\<forall>cp \<in> set cps. scalar cp \<Longrightarrow>
   utf8_decode 0 0 0 0x80 0xBF (concat (map utf8_bytes cps)) = cps"
  by (induction cps) (simp_all add: utf8_decode_bytes utf8_decode.simps(1))

lemma utf8_bytes_range:
  assumes "scalar cp" "b \<in> set (utf8_bytes cp)"
  shows "b < 0x100"
proof -
  have m: "cp mod 0x40 < 0x40" "cp div 0x40 mod 0x40 < 0x40" "cp div 0x1000 mod 0x40 < 0x40"
    by simp_all
  have d1: "cp < 0x800 \<Longrightarrow> cp div 0x40 < 0x20"
    by (intro less_mult_imp_div_less) simp
  have d2: "cp < 0x10000 \<Longrightarrow> cp div 0x1000 < 0x10"
    by (intro less_mult_imp_div_less) simp
  have d3: "cp div 0x40000 < 0x5"
    using assms(1) unfolding scalar_def by (intro less_mult_imp_div_less) simp
  show ?thesis
    using assms(2) m d1 d2 d3 unfolding utf8_bytes_def
    by (auto split: if_splits)
qed


lemma surrogate_unat:
  "is_high u \<longleftrightarrow> 0xD800 \<le> unat u \<and> unat u \<le> 0xDBFF"
  "is_low u \<longleftrightarrow> 0xDC00 \<le> unat u \<and> unat u \<le> 0xDFFF"
  by (simp_all add: is_high_def is_low_def word_le_nat_alt)

lemma unat16_bound: "unat (u :: 16 word) < 0x10000"
  using unsigned_less[of u, where 'a = nat] by simp

lemma pair_scalar:
  assumes "is_high u" "is_low l"
  shows "scalar (0x10000 + (unat u - 0xD800) * 0x400 + (unat l - 0xDC00))"
  using assms unfolding surrogate_unat scalar_def by arith

lemma pair_units:
  assumes "is_high u" "is_low l"
  shows "utf16_units (0x10000 + (unat u - 0xD800) * 0x400 + (unat l - 0xDC00)) = [u, l]"
proof -
  let ?h = "unat u - 0xD800" and ?l = "unat l - 0xDC00"
  have l: "?l < 0x400" using assms(2) unfolding surrogate_unat by arith
  have "0xD800 + ?h = unat u" "0xDC00 + ?l = unat l"
    using assms unfolding surrogate_unat by arith+
  with digit_div_mod[OF l, of ?h] show ?thesis
    by (simp add: utf16_units_def)
qed

lemma single_scalar: "\<not> is_high u \<Longrightarrow> \<not> is_low u \<Longrightarrow> scalar (unat u)"
  using unat16_bound[of u] unfolding surrogate_unat scalar_def by arith

lemma single_units: "utf16_units (unat (u :: 16 word)) = [u]"
  using unat16_bound[of u] by (simp add: utf16_units_def)

lemma utf16_scalars_scalar: "\<forall>cp \<in> set (utf16_scalars s). scalar cp"
proof (induction s rule: utf16_scalars.induct)
  case 1
  show ?case by simp
next
  case (2 u)
  show ?case by (simp add: single_scalar) (simp add: scalar_def)
next
  case (3 u l us)
  have "scalar 0xFFFD" by (simp add: scalar_def)
  with 3 show ?case by (simp add: single_scalar pair_scalar)
qed

lemma utf16_units_scalars:
  "well_formed s \<Longrightarrow> concat (map utf16_units (utf16_scalars s)) = s"
  by (induction s rule: utf16_scalars.induct) (simp_all add: single_units pair_units)

lemma unat_bom: "unat (u :: 16 word) = 0xFEFF \<longleftrightarrow> u = 0xFEFF"
  by (simp add: word_unat_eq_iff)

lemma utf16_scalars_no_bom:
  assumes "s = [] \<or> hd s \<noteq> 0xFEFF"
  shows "strip_bom (utf16_scalars s) = utf16_scalars s"
proof (cases s rule: utf16_scalars.cases)
  case 1
  then show ?thesis by (simp add: strip_bom_def)
next
  case (2 u)
  with assms have "unat u \<noteq> 0xFEFF" by (simp add: unat_bom)
  with 2 show ?thesis by (simp add: strip_bom_def)
next
  case (3 u l us)
  with assms have "unat u \<noteq> 0xFEFF" by (simp add: unat_bom)
  with 3 show ?thesis by (simp add: strip_bom_def)
qed

subsection \<open>Base64\<close>

lemma Suc3_mod3: "Suc (Suc (Suc n)) mod 3 = n mod 3"
  using mod_add_self2[of n 3] by (simp del: mod_add_self2)

lemma b64_padding_simps:
  "b64_padding [] = []" "b64_padding [a] = [0x3D, 0x3D]" "b64_padding [a, b] = [0x3D]"
  "b64_padding (a # b # c # rest) = b64_padding rest"
proof -
  show "b64_padding [] = []" "b64_padding [a] = [0x3D, 0x3D]" "b64_padding [a, b] = [0x3D]"
    by (simp_all add: b64_padding_def numeral_2_eq_2)
  show "b64_padding (a # b # c # rest) = b64_padding rest"
    by (simp add: b64_padding_def Suc3_mod3)
qed

lemma btoa_bytes_split: "btoa_bytes bs = map b64_char (b64_sextets bs) @ b64_padding bs"
  by (induction bs rule: btoa_bytes.induct) (simp_all add: b64_padding_simps)

lemma b64_sextets_range:
  "\<forall>b \<in> set bs. b < 0x100 \<Longrightarrow> v \<in> set (b64_sextets bs) \<Longrightarrow> v < 0x40"
proof (induction bs rule: b64_sextets.induct)
  case (1 a b c rest)
  have "a div 4 < 0x40" "b div 16 < 0x10" "c div 64 < 4" "a mod 4 < 4" "b mod 16 < 16" "c mod 64 < 64"
    using 1(2) by (simp_all add: less_mult_imp_div_less)
  with 1 show ?case by auto
next
  case (2 a b)
  have "a div 4 < 0x40" "b div 16 < 0x10" "a mod 4 < 4" "b mod 16 < 16"
    using 2(1) by (simp_all add: less_mult_imp_div_less)
  with 2 show ?case by auto
next
  case (3 a)
  have "a div 4 < 0x40" "a mod 4 < 4"
    using 3(1) by (simp_all add: less_mult_imp_div_less)
  with 3 show ?case by auto
next
  case 4
  then show ?case by simp
qed

lemma regroup:
  fixes a b c :: nat
  assumes "b < 0x100" "c < 0x100"
  shows "a div 4 * 4 + (a mod 4 * 16 + b div 16) div 16 = a"
    and "(a mod 4 * 16 + b div 16) mod 16 * 16 + (b mod 16 * 4 + c div 64) div 4 = b"
    and "(b mod 16 * 4 + c div 64) mod 4 * 64 + c mod 64 = c"
proof -
  have q: "b div 16 < 16" "c div 64 < 4"
    using assms by (simp_all add: less_mult_imp_div_less)
  show "a div 4 * 4 + (a mod 4 * 16 + b div 16) div 16 = a"
    using digit_div_mod[of "b div 16" 16 "a mod 4"] q by simp
  show "(a mod 4 * 16 + b div 16) mod 16 * 16 + (b mod 16 * 4 + c div 64) div 4 = b"
    using digit_div_mod[of "b div 16" 16 "a mod 4"] digit_div_mod[of "c div 64" 4 "b mod 16"] q
    by simp
  show "(b mod 16 * 4 + c div 64) mod 4 * 64 + c mod 64 = c"
    using digit_div_mod[of "c div 64" 4 "b mod 16"] q by simp
qed

lemma atob_sextets_inv:
  "\<forall>b \<in> set bs. b < 0x100 \<Longrightarrow> atob_sextets (b64_sextets bs) = bs"
proof (induction bs rule: b64_sextets.induct)
  case (1 a b c rest)
  then have "b < 0x100" "c < 0x100" by simp_all
  from regroup[OF this] 1
  show ?case by simp
next
  case (2 a b)
  then have b: "b < 0x100" by simp
  have "(b mod 16 * 4) div 4 = b mod 16" by simp
  with regroup(1,2)[OF b b] digit_div_mod[of "b div 16" 16 "a mod 4"] b
  show ?case by (simp add: less_mult_imp_div_less)
next
  case (3 a)
  show ?case by simp
next
  case 4
  show ?case by simp
qed


lemma index_of_nth: "distinct xs \<Longrightarrow> n < length xs \<Longrightarrow> index_of (xs ! n) xs = Some n"
proof (induction xs arbitrary: n)
  case Nil
  then show ?case by simp
next
  case (Cons x xs)
  show ?case
  proof (cases n)
    case 0
    then show ?thesis by simp
  next
    case (Suc m)
    with Cons.prems have "xs ! m \<in> set xs" "x \<notin> set xs" by simp_all
    then have "x \<noteq> xs ! m" by auto
    with Suc Cons show ?thesis by simp
  qed
qed

lemma b64_alphabet_props:
  "distinct b64_alphabet" "length b64_alphabet = 64"
  "\<forall>c \<in> set b64_alphabet. c \<noteq> 0x3D \<and> c \<noteq> 0x2D \<and> c \<noteq> 0x5F \<and> \<not> ascii_whitespace c"
  by (simp_all add: b64_alphabet_def js_def ascii_whitespace_def)

lemma b64_char_alphabet: "b64_char n \<in> set b64_alphabet"
  by (simp add: b64_char_def b64_alphabet_props(2))

lemma b64_val_char: "n < 64 \<Longrightarrow> b64_val (b64_char n) = Some n"
  by (simp add: b64_val_def b64_char_def index_of_nth b64_alphabet_props)

lemma those_b64_val:
  "\<forall>v \<in> set vs. v < 64 \<Longrightarrow> those (map b64_val (map b64_char vs)) = Some vs"
  by (induction vs) (simp_all add: b64_val_char)

lemma length_btoa_bytes: "length (btoa_bytes bs) mod 4 = 0"
  by (induction bs rule: btoa_bytes.induct) simp_all

lemma b64_padding_length: "length (b64_padding bs) \<le> 2"
proof -
  have "(3 - length bs mod 3) mod 3 < 3" by simp
  then show ?thesis by (simp add: b64_padding_def)
qed

lemma replace_all_char: "replace_all c [r] s = map (\<lambda>x. if x = c then r else x) s"
  by (induction s) simp_all

lemma strip_trailing_eq_padding:
  "\<forall>c \<in> set xs. c \<noteq> 0x3D \<Longrightarrow> strip_trailing_eq (xs @ replicate k 0x3D) = xs"
proof -
  assume a: "\<forall>c \<in> set xs. c \<noteq> 0x3D"
  have "dropWhile (\<lambda>c. c = 0x3D) (replicate k (0x3D :: 16 word) @ rev xs) = dropWhile (\<lambda>c. c = 0x3D) (rev xs)"
    by (induction k) simp_all
  moreover have "dropWhile (\<lambda>c. c = 0x3D) (rev xs) = rev xs"
    using a by (cases "rev xs") auto
  ultimately show ?thesis by (simp add: strip_trailing_eq_def)
qed

lemma pad4_replicate: "pad4 d = d @ replicate ((4 - length d mod 4) mod 4) 0x3D"
proof (induction d rule: pad4.induct)
  case (1 d)
  show ?case
  proof (cases "length d mod 4 = 0")
    case True
    then show ?thesis by (subst pad4.simps) simp
  next
    case False
    have "(4 - length d mod 4) mod 4 = Suc ((4 - Suc (length d) mod 4) mod 4)"
      using False by (simp add: mod_Suc) presburger
    with 1[OF False] False show ?thesis
      by (subst pad4.simps) (simp add: replicate_append_same)
  qed
qed

lemma padded_length:
  fixes n k :: nat
  assumes "(n + k) mod 4 = 0" "k \<le> 2"
  shows "n mod 4 \<noteq> 1" and "(4 - n mod 4) mod 4 = k"
proof -
  define m where "m = n mod 4"
  have A: "(m + k) mod 4 = 0"
    unfolding m_def using assms(1) by (simp add: mod_add_left_eq)
  have "m < 4" unfolding m_def by simp
  then have B: "m = 0 \<or> m = 1 \<or> m = 2 \<or> m = 3" by linarith
  have C: "k = 0 \<or> k = 1 \<or> k = 2"
    using assms(2) by linarith
  have "m \<noteq> 1 \<and> (4 - m) mod 4 = k"
    using B C A by (elim disjE; simp)
  then show "n mod 4 \<noteq> 1" and "(4 - n mod 4) mod 4 = k"
    unfolding m_def by simp_all
qed

lemma strip_padding_padded:
  assumes "\<forall>c \<in> set xs. c \<noteq> 0x3D" "(length xs + k) mod 4 = 0" "k \<le> 2"
  shows "strip_padding (xs @ replicate k 0x3D) = xs"
proof -
  have no_eq: "drop n xs \<noteq> ys @ [0x3D]" for n ys
  proof
    assume "drop n xs = ys @ [0x3D]"
    then have "0x3D \<in> set (drop n xs)" by simp
    then have "0x3D \<in> set xs" by (rule in_set_dropD)
    with assms(1) show False by blast
  qed
  consider "k = 0" | "k = 1" | "k = 2" using assms(3) by linarith
  then show ?thesis
  proof cases
    case 1
    with assms(2) no_eq[of _ "[0x3D]"] no_eq[of _ "[]"] show ?thesis
      by (simp add: strip_padding_def)
  next
    case 2
    have "drop (length xs - 1) xs @ [0x3D] \<noteq> [0x3D, 0x3D]"
      using no_eq[of "length xs - 1" "[]"] by simp
    with 2 assms(2) show ?thesis
      by (simp add: strip_padding_def)
  next
    case 3
    with assms(2) show ?thesis
      by (simp add: strip_padding_def numeral_2_eq_2)
  qed
qed

lemma atob_btoa_bytes:
  assumes "\<forall>b \<in> set bs. b < 0x100"
  shows "atob (btoa_bytes bs) = Inr (map of_nat bs)"
proof -
  let ?body = "map b64_char (b64_sextets bs)"
  have alph: "\<forall>c \<in> set ?body. c \<in> set b64_alphabet"
    by (simp add: b64_char_alphabet)
  with b64_alphabet_props(3) have body: "\<forall>c \<in> set ?body. c \<noteq> 0x3D \<and> \<not> ascii_whitespace c"
    by blast
  have split: "btoa_bytes bs = ?body @ replicate (length (b64_padding bs)) 0x3D"
    by (simp add: btoa_bytes_split) (simp add: b64_padding_def)
  have ws: "filter (\<lambda>c. \<not> ascii_whitespace c) (btoa_bytes bs) = btoa_bytes bs"
    unfolding split using body by (simp add: ascii_whitespace_def)
  have len: "(length ?body + length (b64_padding bs)) mod 4 = 0"
    using length_btoa_bytes[of bs] by (simp add: btoa_bytes_split)
  have sp: "strip_padding (btoa_bytes bs) = ?body"
    unfolding split using body len b64_padding_length[of bs]
    by (intro strip_padding_padded) auto
  have l1: "length ?body mod 4 \<noteq> 1"
    using len b64_padding_length[of bs] by (rule padded_length)
  have vs: "those (map b64_val ?body) = Some (b64_sextets bs)"
    using assms b64_sextets_range by (intro those_b64_val) blast
  show ?thesis
    unfolding atob_def ws sp Let_def using l1 vs assms
    by (simp add: atob_sextets_inv)
qed

lemma url_chars_inverse:
  assumes "\<forall>c \<in> set xs. c \<noteq> 0x2D \<and> c \<noteq> (0x5F :: 16 word)"
  shows "replace_all 0x5F [0x2F] (replace_all 0x2D [0x2B]
           (replace_all 0x2F [0x5F] (replace_all 0x2B [0x2D] xs))) = xs"
  using assms by (induction xs) auto

lemma url_chars_no_eq:
  assumes "\<forall>c \<in> set xs. c \<noteq> (0x3D :: 16 word)"
  shows "\<forall>c \<in> set (replace_all 0x2F [0x5F] (replace_all 0x2B [0x2D] xs)). c \<noteq> 0x3D"
  using assms by (induction xs) auto

lemma url_chars_append_eq:
  "replace_all 0x2F [0x5F] (replace_all 0x2B [0x2D] (xs @ replicate k (0x3D :: 16 word)))
     = replace_all 0x2F [0x5F] (replace_all 0x2B [0x2D] xs) @ replicate k 0x3D"
proof (induction xs)
  case Nil
  show ?case by (induction k) simp_all
next
  case (Cons x xs)
  then show ?case by simp
qed

lemma url_roundtrip:
  "pad4 (replace_all 0x5F (js ''/'') (replace_all 0x2D (js ''+'')
      (strip_trailing_eq (replace_all 0x2F (js ''_'') (replace_all 0x2B (js ''-'')
         (btoa_bytes bs)))))) = btoa_bytes bs"
proof -
  let ?body = "map b64_char (b64_sextets bs)"
  let ?k = "length (b64_padding bs)"
  have lit: "js ''/'' = [0x2F]" "js ''+'' = [0x2B]" "js ''_'' = [0x5F]" "js ''-'' = [0x2D]"
    by (simp_all add: js_def)
  have body: "\<forall>c \<in> set ?body. c \<noteq> 0x3D \<and> c \<noteq> 0x2D \<and> c \<noteq> 0x5F"
    using b64_alphabet_props(3) b64_char_alphabet by auto
  then have b1: "\<forall>c \<in> set ?body. c \<noteq> 0x3D" and b2: "\<forall>c \<in> set ?body. c \<noteq> 0x2D \<and> c \<noteq> 0x5F"
    by blast+
  have split: "btoa_bytes bs = ?body @ replicate ?k 0x3D"
    by (simp add: btoa_bytes_split) (simp add: b64_padding_def)
  have len: "(length ?body + ?k) mod 4 = 0"
    using length_btoa_bytes[of bs] by (simp add: btoa_bytes_split)
  have k: "(4 - length ?body mod 4) mod 4 = ?k"
    using len b64_padding_length[of bs] by (rule padded_length)
  have "pad4 (replace_all 0x5F [0x2F] (replace_all 0x2D [0x2B]
      (strip_trailing_eq (replace_all 0x2F [0x5F] (replace_all 0x2B [0x2D]
         (?body @ replicate ?k 0x3D)))))) = ?body @ replicate ?k 0x3D"
    unfolding url_chars_append_eq strip_trailing_eq_padding[OF url_chars_no_eq[OF b1]]
      url_chars_inverse[OF b2] pad4_replicate k ..
  then show ?thesis
    unfolding lit split[symmetric] .
qed

subsection \<open>base64Encode followed by base64Decode\<close>

lemma byte_words:
  assumes "b < 0x100"
  shows "unat (ucast (of_nat b :: 8 word) :: 16 word) = b"
    and "\<not> 0xFF < (ucast (of_nat b :: 8 word) :: 16 word)"
    and "unat (ucast (of_nat b :: 16 word) :: 8 word) = b"
proof -
  show 1: "unat (ucast (of_nat b :: 8 word) :: 16 word) = b"
    using assms by (simp add: unsigned_ucast_eq unat_of_nat take_bit_eq_mod)
  show "\<not> 0xFF < (ucast (of_nat b :: 8 word) :: 16 word)"
    using 1 assms by (simp add: word_less_nat_alt)
  show "unat (ucast (of_nat b :: 16 word) :: 8 word) = b"
    using assms by (simp add: unsigned_ucast_eq unat_of_nat take_bit_eq_mod)
qed

lemma binary_of_bytes_words:
  assumes "\<forall>b \<in> set bs. b < 0x100"
  shows "map unat (binary_of_bytes (map of_nat bs)) = bs"
    and "\<not> (\<exists>u \<in> set (binary_of_bytes (map of_nat bs)). 0xFF < u)"
  using assms by (induction bs) (simp_all add: byte_words)

lemma bytes_of_binary_words:
  assumes "\<forall>b \<in> set bs. b < 0x100"
  shows "map unat (bytes_of_binary (map of_nat bs)) = bs"
  using assms by (induction bs) (simp_all add: byte_words)

lemma utf8_all_bytes:
  "\<forall>b \<in> set (concat (map utf8_bytes (utf16_scalars s))). b < 0x100"
  using utf16_scalars_scalar[of s] utf8_bytes_range by auto

lemma base64Encode_bytes:
  "base64Encode s =
     Inr (strip_trailing_eq (replace_all 0x2F (js ''_'') (replace_all 0x2B (js ''-'')
            (btoa_bytes (concat (map utf8_bytes (utf16_scalars s)))))))"
  using binary_of_bytes_words[OF utf8_all_bytes[of s]]
  by (simp add: base64Encode_def TextEncoder_encode_def btoa_def)

lemma base64Encode_total: "\<exists>t. base64Encode s = Inr t"
  by (simp add: base64Encode_bytes)

lemma base64Decode_Encode:
  assumes "base64Encode s = Inr t"
  shows "base64Decode t =
           Inr (concat (map utf16_units (strip_bom (utf16_scalars s))))"
proof -
  let ?bs = "concat (map utf8_bytes (utf16_scalars s))"
  have t: "t = strip_trailing_eq (replace_all 0x2F (js ''_'') (replace_all 0x2B (js ''-'')
            (btoa_bytes ?bs)))"
    using assms by (simp add: base64Encode_bytes)
  have "utf8_decode 0 0 0 0x80 0xBF ?bs = utf16_scalars s"
    using utf16_scalars_scalar[of s] by (rule utf8_decode_encode)
  then show ?thesis
    unfolding base64Decode_def t url_roundtrip Let_def
    by (simp add: atob_btoa_bytes[OF utf8_all_bytes] TextDecoder_decode_def
        bytes_of_binary_words[OF utf8_all_bytes])
qed


section \<open>The walk of extractEmailBody\<close>

lemma base64Decode_error: "base64Decode s = Inl e \<Longrightarrow> e = InvalidCharacterError"
  by (auto simp: base64Decode_def atob_def Let_def split: if_splits option.splits sum.splits)

lemma process_body_isl:
  "isl (process_body mt b r) = (\<not> decodable (Part mt hs b ps))"
  by (cases b) (auto simp: process_body_def decodable_def has_data_def part_data_def split: sum.splits)

lemma process_body_error: "process_body mt b r = Inl e \<Longrightarrow> e = InvalidCharacterError"
  by (auto simp: process_body_def split: option.splits if_splits sum.splits dest: base64Decode_error)

lemma process_isl:
  "isl (processPayload p r) = (\<exists>x \<in> set (walk p). \<not> decodable x)"
  "isl (processParts ps r) = (\<exists>x \<in> set (walk_parts ps). \<not> decodable x)"
proof (induction p r and ps r rule: processPayload_processParts.induct)
  case (1 mt hs b ps result)
  show ?case
  proof (cases "process_body mt b result")
    case (Inl e)
    with process_body_isl[of mt b result hs ps] show ?thesis by simp
  next
    case (Inr result')
    with process_body_isl[of mt b result hs ps] 1[OF Inr] show ?thesis
      by (cases ps) simp_all
  qed
next
  case (2 result)
  show ?case by simp
next
  case (3 subpart rest result)
  show ?case
  proof (cases "processPayload subpart result")
    case (Inl e)
    with 3(1) show ?thesis by auto
  next
    case (Inr result')
    with 3(1) 3(2)[OF Inr] show ?thesis by auto
  qed
qed

lemma process_error:
  "processPayload p r = Inl e \<Longrightarrow> e = InvalidCharacterError"
  "processParts ps r = Inl e \<Longrightarrow> e = InvalidCharacterError"
proof (induction p r and ps r rule: processPayload_processParts.induct)
  case (1 mt hs b ps result)
  then show ?case
    by (auto split: sum.splits option.splits dest: process_body_error)
next
  case (2 result)
  then show ?case by simp
next
  case (3 subpart rest result)
  then show ?case by (auto split: sum.splits)
qed

lemma process_body_html:
  "process_body mt b r = Inr r' \<Longrightarrow> \<not> html_part (Part mt hs b ps) \<Longrightarrow> html r' = html r"
  by (cases b) (auto simp: process_body_def html_part_def has_data_def split: sum.splits if_splits)

lemma process_html:
  "processPayload p r = Inr r' \<Longrightarrow> \<forall>x \<in> set (walk p). \<not> html_part x \<Longrightarrow> html r' = html r"
  "processParts ps r = Inr r' \<Longrightarrow> \<forall>x \<in> set (walk_parts ps). \<not> html_part x \<Longrightarrow> html r' = html r"
proof (induction p r and ps r arbitrary: r' and r' rule: processPayload_processParts.induct)
  case (1 mt hs b ps result)
  from 1(2) obtain r1 where r1: "process_body mt b result = Inr r1"
    by (auto split: sum.splits)
  from 1(3) have "\<not> html_part (Part mt hs b ps)" by simp
  with r1 have h: "html r1 = html result" by (rule process_body_html)
  show ?case
  proof (cases ps)
    case None
    with 1(2) r1 h show ?thesis by simp
  next
    case (Some subs)
    with 1(2) r1 have "processParts subs r1 = Inr r'" by simp
    moreover from 1(3) Some have "\<forall>x \<in> set (walk_parts subs). \<not> html_part x" by simp
    ultimately have "html r' = html r1" using 1(1)[OF r1 Some] by blast
    with h show ?thesis by simp
  qed
next
  case (2 result)
  then show ?case by simp
next
  case (3 subpart rest result)
  from 3(3) obtain r1 where r1: "processPayload subpart result = Inr r1"
    by (auto split: sum.splits)
  with 3(3) have r2: "processParts rest r1 = Inr r'" by simp
  from 3(4) have a: "\<forall>x \<in> set (walk subpart). \<not> html_part x" "\<forall>x \<in> set (walk_parts rest). \<not> html_part x"
    by simp_all
  from 3(1)[OF r1 a(1)] 3(2)[OF r1 r2 a(2)] show ?case by simp
qed

lemma replace_all_append: "replace_all c r (xs @ ys) = replace_all c r xs @ replace_all c r ys"
  by (induction xs) simp_all

lemma plain_to_html_escape: "plain_to_html s = concat (map escape_char s)"
proof (induction s)
  case Nil
  show ?case by (simp add: plain_to_html_def)
next
  case (Cons x xs)
  have lit: "js ''&amp;'' = [0x26, 0x61, 0x6D, 0x70, 0x3B]" "js ''&lt;'' = [0x26, 0x6C, 0x74, 0x3B]"
    "js ''&gt;'' = [0x26, 0x67, 0x74, 0x3B]" "js ''<br>'' = [0x3C, 0x62, 0x72, 0x3E]"
    by (simp_all add: js_def)
  from Cons show ?case
    unfolding plain_to_html_def escape_char_def lit
    by (simp add: replace_all_append)
qed

text \<open>Two inputs of \<open>base64Decode\<close>: the encoding of \<open>a < b\<close>, and a character outside the alphabet.\<close>

lemma decode_a_lt_b: "base64Decode (js ''YSA8IGI'') = Inr (js ''a < b'')"
proof -
  have "base64Encode (js ''a < b'') = Inr (js ''YSA8IGI'')"
    by (simp add: base64Encode_bytes is_high_def is_low_def utf8_bytes_def b64_char_def
        b64_alphabet_def js_def strip_trailing_eq_def)
  from base64Decode_Encode[OF this] show ?thesis
    by (simp add: js_def is_high_def is_low_def strip_bom_def utf16_units_def)
qed

lemma decode_bang: "base64Decode (js ''!'') = Inl InvalidCharacterError"
proof -
  have "pad4 (js ''!'') = js ''!===''"
    by (simp add: pad4.simps js_def)
  moreover have "atob (js ''!==='') = Inl InvalidCharacterError"
    by (simp add: atob_def js_def ascii_whitespace_def strip_padding_def b64_val_def b64_alphabet_def)
  ultimately show ?thesis
    by (simp add: base64Decode_def) (simp add: js_def)
qed

section \<open>The loop of parseEmailHeaders\<close>





section \<open>What the API client changes\<close>

lemma request_frame:
  "accessToken (snd (request env endpoint params meth pb w)) = accessToken w"
  "lastKnownMessageIds (snd (request env endpoint params meth pb w)) = lastKnownMessageIds w"
  "notifications (snd (request env endpoint params meth pb w)) = notifications w"
  "requests (snd (request env endpoint params meth pb w))
     = (if truthy (accessToken w)
        then requests w @ [api_request w endpoint params meth pb] else requests w)"
  by (simp_all add: request_def Let_def split: sum.splits content.splits)

lemma request_world:
  "snd (request env endpoint params meth pb w)
     = (if truthy (accessToken w)
        then w\<lparr>requests := requests w @ [api_request w endpoint params meth pb]\<rparr> else w)"
  by (simp add: request_def Let_def split: sum.splits content.splits)

lemma request_last:
  "truthy (accessToken w) \<Longrightarrow>
   last (requests (snd (request env endpoint params meth pb w))) = api_request w endpoint params meth pb"
  by (simp add: request_world)

lemma request_not_ok:
  assumes "truthy (accessToken w)" and "\<not> ok resp"
    and "fetch env (api_request w endpoint params meth pb) = Inr resp"
  shows "fst (request env endpoint params meth pb w) = Inl (http_error resp)"
  using assms by (simp add: request_def Let_def)

lemma request_token:
  "accessToken w2 = accessToken w \<Longrightarrow>
   fst (request env endpoint params meth pb w2) = fst (request env endpoint params meth pb w)"
  by (simp add: request_def api_request_def Let_def split: sum.splits content.splits)

lemma getMessage_world:
  "snd (getMessage env mid fmt w)
     = snd (request env (js ''/messages/'' @ tmpl mid)
              [(js ''format'', case fmt of None \<Rightarrow> js ''full'' | Some f \<Rightarrow> f)] (js ''GET'') None w)"
  by (simp add: getMessage_def Let_def split: prod.splits sum.splits)

lemma getMessage_result:
  "fst (getMessage env mid fmt w)
     = (case fst (request env (js ''/messages/'' @ tmpl mid)
                    [(js ''format'', case fmt of None \<Rightarrow> js ''full'' | Some f \<Rightarrow> f)]
                    (js ''GET'') None w) of
          Inl e \<Rightarrow> Inl e
        | Inr response \<Rightarrow>
            (case as_object response of
               Inl e \<Rightarrow> Inl e
             | Inr r \<Rightarrow> parse_message (case fmt of None \<Rightarrow> js ''full'' | Some f \<Rightarrow> f) r))"
  by (simp add: getMessage_def Let_def split: prod.splits sum.splits)

lemma getMessage_frame:
  "accessToken (snd (getMessage env mid fmt w)) = accessToken w"
  "lastKnownMessageIds (snd (getMessage env mid fmt w)) = lastKnownMessageIds w"
  "notifications (snd (getMessage env mid fmt w)) = notifications w"
  "requests (snd (getMessage env mid (Some f) w))
     = (if truthy (accessToken w) then requests w @ [message_request w mid f] else requests w)"
  by (simp_all add: getMessage_world request_frame message_request_def)

lemma getMessage_token:
  assumes "accessToken w2 = accessToken w"
  shows "fst (getMessage env mid fmt w2) = fst (getMessage env mid fmt w)"
  by (simp add: getMessage_result request_token[OF assms])

lemma fetch_details_Cons:
  "fetch_details env (mid # mids) w
     = (fst (getMessage env mid (Some (js ''metadata'')) w)
          # fst (fetch_details env mids (snd (getMessage env mid (Some (js ''metadata'')) w))),
        snd (fetch_details env mids (snd (getMessage env mid (Some (js ''metadata'')) w))))"
  by (simp split: prod.splits)

lemma fetch_details_frame:
  "accessToken (snd (fetch_details env mids w)) = accessToken w"
  "lastKnownMessageIds (snd (fetch_details env mids w)) = lastKnownMessageIds w"
  "notifications (snd (fetch_details env mids w)) = notifications w"
  by (induction mids arbitrary: w)
     (simp_all add: fetch_details_Cons getMessage_frame del: fetch_details.simps(2))

lemma fetch_details_results:
  "fst (fetch_details env mids w)
     = map (\<lambda>mid. fst (getMessage env mid (Some (js ''metadata'')) w)) mids"
proof (induction mids arbitrary: w)
  case Nil
  show ?case by simp
next
  case (Cons mid mids)
  have "fst (getMessage env m (Some (js ''metadata''))
               (snd (getMessage env mid (Some (js ''metadata'')) w)))
          = fst (getMessage env m (Some (js ''metadata'')) w)" for m
    by (rule getMessage_token) (simp add: getMessage_frame)
  with Cons show ?case
    by (simp add: fetch_details_Cons del: fetch_details.simps(2))
qed

lemma fetch_details_requests:
  assumes "truthy (accessToken w)"
  shows "requests (snd (fetch_details env mids w))
     = requests w @ map (\<lambda>mid. message_request w mid (js ''metadata'')) mids"
  using assms
proof (induction mids arbitrary: w)
  case Nil
  show ?case by simp
next
  case (Cons mid mids)
  let ?w1 = "snd (getMessage env mid (Some (js ''metadata'')) w)"
  have t: "accessToken ?w1 = accessToken w" by (simp add: getMessage_frame)
  then have m: "message_request ?w1 = message_request w"
    by (simp add: message_request_def api_request_def fun_eq_iff)
  from Cons.prems t have "truthy (accessToken ?w1)" by simp
  from Cons.IH[OF this] Cons.prems m show ?case
    by (simp add: fetch_details_Cons getMessage_frame del: fetch_details.simps(2))
qed

lemma rejected_positions:
  "filter (\<lambda>i. isl (rs ! i)) [0..<length rs] = [] \<longleftrightarrow> \<not> (\<exists>r \<in> set rs. isl r)"
proof
  assume "filter (\<lambda>i. isl (rs ! i)) [0..<length rs] = []"
  then have "\<forall>i < length rs. \<not> isl (rs ! i)" by (simp add: filter_empty_conv)
  then show "\<not> (\<exists>r \<in> set rs. isl r)" by (auto simp: in_set_conv_nth)
next
  assume "\<not> (\<exists>r \<in> set rs. isl r)"
  then have "\<forall>i < length rs. \<not> isl (rs ! i)" using nth_mem by blast
  then show "filter (\<lambda>i. isl (rs ! i)) [0..<length rs] = []" by (simp add: filter_empty_conv)
qed

lemma Promise_all_rejects: "(\<exists>r \<in> set rs. isl r) \<Longrightarrow> isl (Promise_all first rs)"
  using rejected_positions[of rs] by (simp add: Promise_all_def Let_def)

lemma Promise_all_fulfils:
  assumes "\<not> (\<exists>r \<in> set rs. isl r)"
  shows "\<exists>xs. Promise_all first rs = Inr xs \<and> map Inr xs = rs"
proof -
  from assms have "map Inr (map projr rs) = rs"
    by (induction rs) (auto simp: isl_def)
  with assms rejected_positions[of rs] show ?thesis
    by (simp add: Promise_all_def Let_def)
qed

text \<open>A rejection of \<open>Promise.all\<close> is the rejection of one of the promises.\<close>

lemma Promise_all_reason:
  assumes "Promise_all first rs = Inl e"
  shows "Inl e \<in> set rs"
proof -
  let ?rejected = "filter (\<lambda>i. isl (rs ! i)) [0..<length rs]"
  let ?i = "if first ?rejected \<in> set ?rejected then first ?rejected else hd ?rejected"
  from assms have ne: "?rejected \<noteq> []" and e: "e = projl (rs ! ?i)"
    by (auto simp: Promise_all_def Let_def split: if_splits)
  have "?i \<in> set ?rejected"
  proof (cases "first ?rejected \<in> set ?rejected")
    case True
    then show ?thesis by (simp only: if_True)
  next
    case False
    with hd_in_set[OF ne] show ?thesis by (simp only: if_False)
  qed
  then have i: "?i < length rs" "isl (rs ! ?i)" by (simp_all only: set_filter mem_Collect_eq set_upt atLeastLessThan_iff)
  from i(2) e have "rs ! ?i = Inl e" by (simp only: sum.collapse(1))
  with i(1) show ?thesis by (metis nth_mem)
qed

lemma show_nat_503: "show_nat 503 = js ''503''"
  by (simp add: show_nat.simps js_def)

lemma request_success_token:
  "request env endpoint params meth pb w = (Inr r, w') \<Longrightarrow> truthy (accessToken w)"
  by (auto simp: request_def split: if_splits)

lemma listMessages_unfold:
  assumes "request env (js ''/messages'') (list_params opts) (js ''GET'') None w = (Inr j, w1)"
    and "as_object j = Inr response"
  shows "listMessages env opts w =
     (case Promise_all (first_rejected env) (fst (fetch_details env
              (case resource.messages response of None \<Rightarrow> [] | Some ms \<Rightarrow> ms) w1)) of
        Inl e \<Rightarrow> Inl e
      | Inr detailed \<Rightarrow> Inr \<lparr>messages = detailed,
                              nextPageToken = resource.nextPageToken response,
                              resultSizeEstimate = resource.resultSizeEstimate response\<rparr>,
      snd (fetch_details env (case resource.messages response of None \<Rightarrow> [] | Some ms \<Rightarrow> ms) w1))"
  using assms by (simp add: listMessages_def Let_def split: prod.splits sum.splits)

lemma parse_message_metadata:
  "\<exists>m. parse_message (js ''metadata'') r = Inr m \<and> parsed_message.id' m = resource.id' r"
proof -
  have "js ''metadata'' \<noteq> js ''full''" by (simp add: js_def)
  then show ?thesis
    by (simp add: parse_message_def Let_def split: option.splits)
qed

lemma createMimeMessage_total: "\<exists>raw_text. createMimeMessage opts = Inr raw_text"
  by (simp add: createMimeMessage_def base64Encode_total)






text \<open>The error of a response that is not \<open>ok\<close>, by status and body.\<close>

lemma http_error_cases:
  "http_error resp =
     (if status resp = 401 then Error (js ''AUTH_EXPIRED'')
      else case content resp of
             Json Null \<Rightarrow> TypeError
           | Json (Object j) \<Rightarrow>
               (case resource.error j of
                  None \<Rightarrow> Error (js ''API Error: '' @ show_nat (unat (status resp)))
                | Some e \<Rightarrow>
                    (case api_error.message e of
                       None \<Rightarrow> Error (js ''API Error: '' @ show_nat (unat (status resp)))
                     | Some m \<Rightarrow>
                         if m = [] then Error (js ''API Error: '' @ show_nat (unat (status resp)))
                         else Error m))
           | _ \<Rightarrow> Error (js ''API Error: '' @ show_nat (unat (status resp))))"
  by (simp add: http_error_def provider_message_def empty_object_def
      split: content.splits json.splits option.splits)



section \<open>What a poll cycle changes\<close>

lemma listMessages_frame:
  "accessToken (snd (listMessages env opts w)) = accessToken w"
  "lastKnownMessageIds (snd (listMessages env opts w)) = lastKnownMessageIds w"
  "notifications (snd (listMessages env opts w)) = notifications w"
proof -
  obtain r w1 where q: "request env (js ''/messages'') (list_params opts) (js ''GET'') None w = (r, w1)"
    by fastforce
  from request_frame(1,2,3)[of env "js ''/messages''" "list_params opts" "js ''GET''" None w] q
  have w1: "accessToken w1 = accessToken w" "lastKnownMessageIds w1 = lastKnownMessageIds w"
    "notifications w1 = notifications w" by simp_all
  have "accessToken (snd (listMessages env opts w)) = accessToken w \<and>
        lastKnownMessageIds (snd (listMessages env opts w)) = lastKnownMessageIds w \<and>
        notifications (snd (listMessages env opts w)) = notifications w"
  proof (cases r)
    case (Inl e)
    with q w1 show ?thesis by (simp add: listMessages_def)
  next
    case (Inr response)
    with q have r: "request env (js ''/messages'') (list_params opts) (js ''GET'') None w = (Inr response, w1)"
      by simp
    show ?thesis
    proof (cases "as_object response")
      case (Inl e)
      with r w1 show ?thesis by (simp add: listMessages_def)
    next
      case (Inr obj)
      from listMessages_unfold[OF r Inr] w1 show ?thesis
        by (simp add: fetch_details_frame)
    qed
  qed
  then show "accessToken (snd (listMessages env opts w)) = accessToken w"
    "lastKnownMessageIds (snd (listMessages env opts w)) = lastKnownMessageIds w"
    "notifications (snd (listMessages env opts w)) = notifications w"
    by simp_all
qed

lemma authenticateSilently_frame:
  "lastKnownMessageIds (snd (authenticateSilently env w)) = lastKnownMessageIds w"
  "notifications (snd (authenticateSilently env w)) = notifications w"
  by (simp_all add: authenticateSilently_def split: prod.splits option.splits)

lemma showNotification_frame:
  "lastKnownMessageIds (snd (showNotification env msg w)) = lastKnownMessageIds w"
  "requests (snd (showNotification env msg w)) = requests w"
  by (simp_all add: showNotification_def Let_def split: option.splits)

lemma notify_new_frame:
  "lastKnownMessageIds (snd (notify_new env known msgs w)) = lastKnownMessageIds w \<and>
   requests (snd (notify_new env known msgs w)) = requests w"
proof (induction msgs arbitrary: w)
  case Nil
  show ?case by simp
next
  case (Cons msg msgs)
  show ?case
  proof (cases "showNotification env msg w")
    case (Pair e w')
    with showNotification_frame[of env msg w] Cons[of w'] Cons[of w]
    show ?thesis by (cases e) simp_all
  qed
qed

text \<open>
  The loop raises the notifications of the new messages up to the first one that the
  platform rejects, and ends without an exception when it rejects none.
\<close>

lemma notify_new_notifications:
  "notifications (snd (notify_new env known msgs w))
     = notifications w
       @ map (raised env)
           (takeWhile (\<lambda>msg. notifications_create env (fst (raised env msg)) (snd (raised env msg)) = None)
              (filter (\<lambda>msg. parsed_message.id' msg \<notin> known) msgs))"
proof (induction msgs arbitrary: w)
  case Nil
  show ?case by simp
next
  case (Cons msg msgs)
  show ?case
  proof (cases "notifications_create env (fst (raised env msg)) (snd (raised env msg))")
    case None
    with Cons show ?thesis
      by (simp add: showNotification_def Let_def raised_def)
  next
    case (Some e)
    with Cons show ?thesis
      by (simp add: showNotification_def Let_def raised_def)
  qed
qed

lemma notify_new_outcome:
  "fst (notify_new env known msgs w) = None \<longleftrightarrow>
     (\<forall>msg \<in> set (filter (\<lambda>msg. parsed_message.id' msg \<notin> known) msgs).
        notifications_create env (fst (raised env msg)) (snd (raised env msg)) = None)"
proof (induction msgs arbitrary: w)
  case Nil
  show ?case by simp
next
  case (Cons msg msgs)
  show ?case
  proof (cases "notifications_create env (fst (raised env msg)) (snd (raised env msg))")
    case None
    with Cons show ?thesis
      by (simp add: showNotification_def Let_def raised_def)
  next
    case (Some e)
    with Cons show ?thesis
      by (simp add: showNotification_def Let_def raised_def)
  qed
qed

lemma notify_new_all:
  assumes "\<forall>msg \<in> set msgs. notifications_create env (fst (raised env msg)) (snd (raised env msg)) = None"
  shows "notify_new env known msgs w
           = (None, w\<lparr>notifications := notifications w
                        @ map (raised env) (filter (\<lambda>msg. parsed_message.id' msg \<notin> known) msgs)\<rparr>)"
  using assms
proof (induction msgs arbitrary: w)
  case Nil
  show ?case by simp
next
  case (Cons msg msgs)
  then show ?case
    by (simp add: showNotification_def Let_def raised_def)
qed

lemma mailbox_detail:
  assumes "truthy (accessToken w)" and "fetch env = mailbox_fetch unread"
  shows "\<exists>m. fst (getMessage env (Some x) (Some (js ''metadata'')) w) = Inr m
            \<and> parsed_message.id' m = Some x"
proof -
  have "length (js ''/messages/'' @ x) \<noteq> length (js ''/messages'')" by (simp add: js_def)
  then have 1: "js ''/messages/'' @ x \<noteq> js ''/messages''" by metis
  have 2: "drop 10 (js ''/messages/'' @ x) = x" by (simp add: js_def)
  from parse_message_metadata[of "empty_object\<lparr>resource.id' := Some x\<rparr>"] assms 1 2
  show ?thesis
    by (simp add: getMessage_result request_def Let_def api_request_def ok_def json_response_def
        mailbox_fetch_def)
qed

lemma map_Inr_fields:
  assumes "map Inr xs = map f ys" and "\<forall>y \<in> set ys. \<exists>m. f y = Inr m \<and> g m = h y"
  shows "map g xs = map h ys"
  using assms by (induction ys arbitrary: xs) auto

lemma mailbox_listMessages:
  assumes "truthy (accessToken w)" and "fetch env = mailbox_fetch unread"
  shows "\<exists>r w2. listMessages env opts w = (Inr r, w2)
                \<and> map parsed_message.id' (list_result.messages r) = map Some unread"
proof -
  let ?E = env
  let ?w1 = "w\<lparr>requests := requests w
                @ [api_request w (js ''/messages'') (list_params opts) (js ''GET'') None]\<rparr>"
  have l: "request ?E (js ''/messages'') (list_params opts) (js ''GET'') None w
             = (Inr (Object (empty_object\<lparr>resource.messages := Some (map Some unread)\<rparr>)), ?w1)"
    using assms
    by (simp add: request_def Let_def api_request_def json_response_def ok_def mailbox_fetch_def)
  have t: "truthy (accessToken ?w1)" using assms by simp
  let ?detail = "\<lambda>mid. fst (getMessage ?E mid (Some (js ''metadata'')) ?w1)"
  have d: "\<forall>x \<in> set unread. \<exists>m. ?detail (Some x) = Inr m \<and> parsed_message.id' m = Some x"
    using mailbox_detail[OF t assms(2)] by blast
  then have "\<not> (\<exists>r \<in> set (map ?detail (map Some unread)). isl r)" by auto
  from Promise_all_fulfils[OF this] obtain xs
    where xs: "Promise_all (first_rejected ?E) (map ?detail (map Some unread)) = Inr xs"
      "map Inr xs = map ?detail (map Some unread)" by blast
  have "map parsed_message.id' xs = map Some unread"
    using map_Inr_fields[OF xs(2)[unfolded map_map], of parsed_message.id' "\<lambda>x. Some x"] d
    by (simp add: comp_def)
  with listMessages_unfold[OF l, of "empty_object\<lparr>resource.messages := Some (map Some unread)\<rparr>"] xs(1)
  show ?thesis
    by (simp add: fetch_details_results)
qed

lemma checkForNewEmails_unfold:
  "checkForNewEmails env w =
     (let w1 = snd (authenticateSilently env w);
          listed = listMessages env unread_options w1 in
      if \<not> truthy (fst (authenticateSilently env w)) then w1
      else case storage_get env of
             Inl e \<Rightarrow> w1
           | Inr stored \<Rightarrow>
               if notificationsEnabled stored = Some False then w1
               else case fst listed of
                      Inl e \<Rightarrow> snd listed
                    | Inr result \<Rightarrow>
                        (case (if lastKnownMessageIds (snd listed) \<noteq> {}
                               then notify_new env (lastKnownMessageIds (snd listed))
                                      (list_result.messages result) (snd listed)
                               else (None, snd listed)) of
                           (Some e, w3) \<Rightarrow> w3
                         | (None, w3) \<Rightarrow>
                             w3\<lparr>lastKnownMessageIds :=
                                  set (map parsed_message.id' (list_result.messages result))\<rparr>))"
  by (simp add: checkForNewEmails_def Let_def del: set_map split: prod.splits sum.splits)

lemma mailbox_cycle_set:
  "lastKnownMessageIds (checkForNewEmails (mailbox_platform xs) w) = set (map Some xs)"
proof -
  let ?E = "mailbox_platform xs"
  have tok: "js ''token'' \<noteq> []" by (simp add: js_def)
  have a: "authenticateSilently ?E w = (Some (js ''token''), w\<lparr>accessToken := Some (js ''token'')\<rparr>)"
    by (simp add: authenticateSilently_def mailbox_platform_def tok)
  have s: "storage_get ?E = Inr \<lparr>notificationsEnabled = None\<rparr>"
    by (simp add: mailbox_platform_def quiet_platform_def)
  obtain result w2 where l: "listMessages ?E unread_options (w\<lparr>accessToken := Some (js ''token'')\<rparr>)
      = (Inr result, w2)"
    and ids: "map parsed_message.id' (list_result.messages result) = map Some xs"
    using mailbox_listMessages[of "w\<lparr>accessToken := Some (js ''token'')\<rparr>" ?E xs unread_options] tok
    by (auto simp: mailbox_platform_def)
  have "\<forall>msg \<in> set (list_result.messages result).
          notifications_create ?E (fst (raised ?E msg)) (snd (raised ?E msg)) = None"
    by (simp add: mailbox_platform_def quiet_platform_def)
  from notify_new_all[OF this] a s l tok
  have "lastKnownMessageIds (checkForNewEmails ?E w)
          = set (map parsed_message.id' (list_result.messages result))"
    by (simp add: checkForNewEmails_def Let_def del: set_map)
  with ids show ?thesis by simp
qed

lemma list_params_unread:
  "list_params unread_options
     = [(js ''maxResults'', js ''10''), (js ''labelIds'', js ''INBOX''), (js ''q'', js ''is:unread'')]"
  by (simp add: list_params_def unread_options_def Let_def show_nat.simps trim_def js_space_def
      js_def)

text \<open>The first request of \<open>listMessages\<close> is the list call.\<close>

lemma listMessages_first_request:
  assumes "truthy (accessToken w)"
  shows "\<exists>details. requests (snd (listMessages env opts w))
           = requests w @ api_request w (js ''/messages'') (list_params opts) (js ''GET'') None # details"
proof -
  let ?req = "api_request w (js ''/messages'') (list_params opts) (js ''GET'') None"
  let ?w1 = "w\<lparr>requests := requests w @ [?req]\<rparr>"
  obtain r where q: "request env (js ''/messages'') (list_params opts) (js ''GET'') None w = (r, ?w1)"
    using request_world[of env "js ''/messages''" "list_params opts" "js ''GET''" None w] assms
    by (metis prod.collapse)
  have t: "truthy (accessToken ?w1)" using assms by simp
  show ?thesis
  proof (cases r)
    case (Inl e)
    with q show ?thesis by (simp add: listMessages_def)
  next
    case (Inr j)
    show ?thesis
    proof (cases "as_object j")
      case (Inl e)
      with q Inr show ?thesis by (simp add: listMessages_def)
    next
      case obj: (Inr response)
      from q Inr have "request env (js ''/messages'') (list_params opts) (js ''GET'') None w = (Inr j, ?w1)"
        by simp
      from listMessages_unfold[OF this obj] fetch_details_requests[OF t] show ?thesis
        by simp
    qed
  qed
qed

lemma notice_ids:
  "map fst (map (\<lambda>msg. (prefix @ tmpl (parsed_message.id' msg), options msg))
              (filter (\<lambda>msg. parsed_message.id' msg \<notin> known) msgs))
     = map (\<lambda>i. prefix @ tmpl i) (filter (\<lambda>i. i \<notin> known) (map parsed_message.id' msgs))"
  by (induction msgs) simp_all

lemma filter_ids:
  "map parsed_message.id' (filter (\<lambda>msg. parsed_message.id' msg \<notin> known) msgs)
     = filter (\<lambda>i. i \<notin> known) (map parsed_message.id' msgs)"
  by (induction msgs) simp_all

section \<open>Claim C1: the fan-out of listMessages\<close>

text \<open>
  C1. When the list call of \<open>listMessages\<close> has returned a value on which
  \<open>messages\<close> can be read (any JSON value but \<open>null\<close>; the list is empty when
  the value has none), the client issues one detail request (format \<open>metadata\<close>)
  for every entry of the list, in the order of the list, whether or not any of them
  fails. When every detail fetch succeeds, the call returns
  the messages in the order of the list: the message at each position is the result of
  the fetch for the id at that position. When any detail fetch fails, the call fails,
  and returns no messages at all.
\<close>

theorem listMessages_fan_out:
  fixes ids detail
  assumes "request env (js ''/messages'') (list_params opts) (js ''GET'') None w = (Inr j, w1)"
    and "as_object j = Inr response"
  defines "ids \<equiv> (case resource.messages response of None \<Rightarrow> [] | Some ms \<Rightarrow> ms)"
    and "detail \<equiv> (\<lambda>mid. fst (getMessage env mid (Some (js ''metadata'')) w1))"
  shows "requests (snd (listMessages env opts w))
           = requests w1 @ map (\<lambda>mid. message_request w1 mid (js ''metadata'')) ids \<and>
         ((\<forall>mid \<in> set ids. \<not> isl (detail mid)) \<longrightarrow>
            (\<exists>r. fst (listMessages env opts w) = Inr r \<and>
                 map Inr (list_result.messages r) = map detail ids)) \<and>
         ((\<exists>mid \<in> set ids. isl (detail mid)) \<longrightarrow> isl (fst (listMessages env opts w)))"
proof -
  have t: "truthy (accessToken w1)"
    using request_success_token[OF assms(1)] request_frame(1)[of env "js ''/messages''" "list_params opts" "js ''GET''" None w] assms(1)
    by simp
  note u = listMessages_unfold[OF assms(1,2), folded ids_def]
  have res: "fst (fetch_details env ids w1) = map detail ids"
    by (simp add: fetch_details_results detail_def)
  have 1: "requests (snd (listMessages env opts w))
           = requests w1 @ map (\<lambda>mid. message_request w1 mid (js ''metadata'')) ids"
    by (simp add: u fetch_details_requests[OF t])
  have 2: "\<exists>r. fst (listMessages env opts w) = Inr r \<and>
                 map Inr (list_result.messages r) = map detail ids"
    if "\<forall>mid \<in> set ids. \<not> isl (detail mid)"
  proof -
    from that have "\<not> (\<exists>r \<in> set (map detail ids). isl r)" by simp
    from Promise_all_fulfils[OF this] obtain xs
      where "Promise_all (first_rejected env) (map detail ids) = Inr xs"
        "map Inr xs = map detail ids" by blast
    then show ?thesis by (simp add: u res)
  qed
  have 3: "isl (fst (listMessages env opts w))" if "\<exists>mid \<in> set ids. isl (detail mid)"
  proof -
    from that have "\<exists>r \<in> set (map detail ids). isl r" by simp
    from Promise_all_rejects[OF this, of "first_rejected env"] show ?thesis
      by (auto simp: u res isl_def)
  qed
  from 1 2 3 show ?thesis by blast
qed

text \<open>
  The theorem at a list of the three ids \<open>a\<close>, \<open>b\<close>, \<open>c\<close>: on a platform where the
  fetch for \<open>b\<close> answers 500, the four requests are issued and the call fails; on a
  platform where every fetch answers with the message asked for, the call returns the
  messages \<open>a\<close>, \<open>b\<close>, \<open>c\<close> in this order.
\<close>

theorem listMessages_fan_out_witness:
  "map path (requests (snd (listMessages
      (quiet_platform\<lparr>fetch := \<lambda>req.
         if path req = js ''/messages''
         then Inr (json_response 200 (empty_object\<lparr>resource.messages :=
                      Some [Some (js ''a''), Some (js ''b''), Some (js ''c'')]\<rparr>))
         else if path req = js ''/messages/b'' then Inr \<lparr>status = 500, content = NoText\<rparr>
         else Inr (json_response 200 (empty_object\<lparr>resource.id' := Some (drop 10 (path req))\<rparr>))\<rparr>)
      unread_options (initial_world\<lparr>accessToken := Some (js ''token'')\<rparr>))))
     = [js ''/messages'', js ''/messages/a'', js ''/messages/b'', js ''/messages/c''] \<and>
   isl (fst (listMessages
      (quiet_platform\<lparr>fetch := \<lambda>req.
         if path req = js ''/messages''
         then Inr (json_response 200 (empty_object\<lparr>resource.messages :=
                      Some [Some (js ''a''), Some (js ''b''), Some (js ''c'')]\<rparr>))
         else if path req = js ''/messages/b'' then Inr \<lparr>status = 500, content = NoText\<rparr>
         else Inr (json_response 200 (empty_object\<lparr>resource.id' := Some (drop 10 (path req))\<rparr>))\<rparr>)
      unread_options (initial_world\<lparr>accessToken := Some (js ''token'')\<rparr>))) \<and>
   (\<exists>r. fst (listMessages
      (quiet_platform\<lparr>fetch := \<lambda>req.
         if path req = js ''/messages''
         then Inr (json_response 200 (empty_object\<lparr>resource.messages :=
                      Some [Some (js ''a''), Some (js ''b''), Some (js ''c'')]\<rparr>))
         else Inr (json_response 200 (empty_object\<lparr>resource.id' := Some (drop 10 (path req))\<rparr>))\<rparr>)
      unread_options (initial_world\<lparr>accessToken := Some (js ''token'')\<rparr>)) = Inr r \<and>
      map parsed_message.id' (list_result.messages r)
        = [Some (js ''a''), Some (js ''b''), Some (js ''c'')])"
proof -
  let ?list = "json_response 200 (empty_object\<lparr>resource.messages :=
                 Some [Some (js ''a''), Some (js ''b''), Some (js ''c'')]\<rparr>)"
  let ?one = "\<lambda>req. json_response 200 (empty_object\<lparr>resource.id' := Some (drop 10 (path req))\<rparr>)"
  let ?E1 = "quiet_platform\<lparr>fetch := \<lambda>req.
         if path req = js ''/messages'' then Inr ?list
         else if path req = js ''/messages/b'' then Inr \<lparr>status = 500, content = NoText\<rparr>
         else Inr (?one req)\<rparr>"
  let ?E2 = "quiet_platform\<lparr>fetch := \<lambda>req.
         if path req = js ''/messages'' then Inr ?list else Inr (?one req)\<rparr>"
  let ?W = "initial_world\<lparr>accessToken := Some (js ''token'')\<rparr>"
  let ?req = "api_request ?W (js ''/messages'') (list_params unread_options) (js ''GET'') None"
  let ?W1 = "?W\<lparr>requests := requests ?W @ [?req]\<rparr>"
  let ?ids = "[Some (js ''a''), Some (js ''b''), Some (js ''c'')]"
  have lit: "js ''/messages/'' @ js ''a'' = js ''/messages/a''"
    "js ''/messages/'' @ js ''b'' = js ''/messages/b''"
    "js ''/messages/'' @ js ''c'' = js ''/messages/c''"
    "js ''/messages/a'' \<noteq> js ''/messages''" "js ''/messages/b'' \<noteq> js ''/messages''"
    "js ''/messages/c'' \<noteq> js ''/messages''" "js ''/messages/a'' \<noteq> js ''/messages/b''"
    "js ''/messages/c'' \<noteq> js ''/messages/b''" "js ''token'' \<noteq> []"
    "drop 10 (js ''/messages/a'') = js ''a''" "drop 10 (js ''/messages/b'') = js ''b''"
    "drop 10 (js ''/messages/c'') = js ''c''"
    by (simp_all add: js_def)
  have l1: "request ?E1 (js ''/messages'') (list_params unread_options) (js ''GET'') None ?W
              = (Inr (Object (empty_object\<lparr>resource.messages := Some ?ids\<rparr>)), ?W1)"
    by (simp add: request_def Let_def api_request_def json_response_def ok_def lit)
  have l2: "request ?E2 (js ''/messages'') (list_params unread_options) (js ''GET'') None ?W
              = (Inr (Object (empty_object\<lparr>resource.messages := Some ?ids\<rparr>)), ?W1)"
    by (simp add: request_def Let_def api_request_def json_response_def ok_def lit)
  have ids: "(case resource.messages (empty_object\<lparr>resource.messages := Some ?ids\<rparr>) of
               None \<Rightarrow> [] | Some ms \<Rightarrow> ms) = ?ids"
    by simp
  have bad: "isl (fst (getMessage ?E1 (Some (js ''b'')) (Some (js ''metadata'')) ?W1))"
    by (simp add: getMessage_result request_def Let_def api_request_def ok_def lit
        split: sum.splits)
  have good: "\<exists>m. fst (getMessage ?E2 (Some x) (Some (js ''metadata'')) ?W1) = Inr m
                  \<and> parsed_message.id' m = Some x"
    if "js ''/messages/'' @ x \<noteq> js ''/messages''" "drop 10 (js ''/messages/'' @ x) = x" for x
    using that parse_message_metadata[of "empty_object\<lparr>resource.id' := Some x\<rparr>"]
    by (simp add: getMessage_result request_def Let_def api_request_def ok_def lit json_response_def)
  have obj: "as_object (Object (empty_object\<lparr>resource.messages := Some ?ids\<rparr>))
               = Inr (empty_object\<lparr>resource.messages := Some ?ids\<rparr>)"
    by simp
  from listMessages_fan_out[OF l1 obj] bad
  have 1: "requests (snd (listMessages ?E1 unread_options ?W))
             = requests ?W1 @ map (\<lambda>mid. message_request ?W1 mid (js ''metadata'')) ?ids"
    and 2: "isl (fst (listMessages ?E1 unread_options ?W))"
    unfolding ids by simp_all
  from 1 have 1: "map path (requests (snd (listMessages ?E1 unread_options ?W)))
      = [js ''/messages'', js ''/messages/a'', js ''/messages/b'', js ''/messages/c'']"
    by (simp add: message_request_def api_request_def initial_world_def lit)
  from good[of "js ''a''"] good[of "js ''b''"] good[of "js ''c''"]
  obtain ma mb mc where m:
    "fst (getMessage ?E2 (Some (js ''a'')) (Some (js ''metadata'')) ?W1) = Inr ma" "parsed_message.id' ma = Some (js ''a'')"
    "fst (getMessage ?E2 (Some (js ''b'')) (Some (js ''metadata'')) ?W1) = Inr mb" "parsed_message.id' mb = Some (js ''b'')"
    "fst (getMessage ?E2 (Some (js ''c'')) (Some (js ''metadata'')) ?W1) = Inr mc" "parsed_message.id' mc = Some (js ''c'')"
    unfolding lit by (auto simp: lit)
  from listMessages_fan_out[OF l2 obj] m(1,3,5)
  obtain r where r: "fst (listMessages ?E2 unread_options ?W) = Inr r"
    "map Inr (list_result.messages r) = [Inr ma, Inr mb, Inr mc]"
    unfolding ids by auto
  from r(2) have "list_result.messages r = [ma, mb, mc]"
    by (auto simp: map_eq_Cons_conv)
  with m(2,4,6) r(1) have 3: "\<exists>r. fst (listMessages ?E2 unread_options ?W) = Inr r \<and>
      map parsed_message.id' (list_result.messages r) = ?ids"
    by simp
  from 1 2 3 show ?thesis by blast
qed

section \<open>Claim C2: HTTP errors in the API client\<close>

lemma surfaces_request:
  assumes "truthy (accessToken w)" and "\<not> ok resp"
  shows "surfaces env resp (http_error resp) (request env endpoint params meth pb w)"
  unfolding surfaces_def request_last[OF assms(1)]
  using request_not_ok[OF assms] by blast

lemma surfaces_getMessage:
  assumes "truthy (accessToken w)" and "\<not> ok resp"
  shows "surfaces env resp (http_error resp) (getMessage env mid fmt w)"
proof -
  let ?f = "case fmt of None \<Rightarrow> js ''full'' | Some f \<Rightarrow> f"
  from surfaces_request[OF assms, of env "js ''/messages/'' @ tmpl mid" "[(js ''format'', ?f)]" "js ''GET''" None]
  show ?thesis
    by (simp add: surfaces_def getMessage_world getMessage_result)
qed

lemma surfaces_sendMessage:
  assumes "truthy (accessToken w)" and "\<not> ok resp"
  shows "surfaces env resp (http_error resp) (sendMessage env t s b th i r w)"
proof -
  obtain raw_text where "createMimeMessage \<lparr>to = t, subject = s, body = b, from = None,
      inReplyTo = i, references = r\<rparr> = Inr raw_text"
    using createMimeMessage_total by blast
  with surfaces_request[OF assms] show ?thesis
    by (simp add: sendMessage_def)
qed

text \<open>An operation that fetches a message and then sends one.\<close>

lemma surfaces_fetch_then_send:
  assumes "truthy (accessToken w)" and "\<not> ok resp"
    and "\<And>e w1. getMessage env mid (Some (js ''full'')) w = (Inl e, w1) \<Longrightarrow> outcome = (Inl e, w1)"
    and "\<And>original w1. getMessage env mid (Some (js ''full'')) w = (Inr original, w1) \<Longrightarrow>
           \<exists>t s b th i r. outcome = sendMessage env t s b th i r w1"
  shows "surfaces env resp (http_error resp) outcome"
proof (cases "getMessage env mid (Some (js ''full'')) w")
  case (Pair result w1)
  show ?thesis
  proof (cases result)
    case (Inl e)
    with Pair assms(3) have "outcome = (Inl e, w1)" by simp
    with surfaces_getMessage[OF assms(1,2), of env mid "Some (js ''full'')"] Pair Inl
    show ?thesis by (simp add: surfaces_def)
  next
    case (Inr original)
    with Pair assms(4) obtain t s b th i r where o: "outcome = sendMessage env t s b th i r w1"
      by blast
    from getMessage_frame(1)[of env mid "Some (js ''full'')" w] Pair assms(1)
    have "truthy (accessToken w1)" by simp
    from surfaces_sendMessage[OF this assms(2)] o show ?thesis by simp
  qed
qed

text \<open>
  C2, as amended. The client holds a token, and \<open>resp\<close> is a response whose status is
  outside 200 to 299 and whose body, unless the status is 401, is not the JSON value
  \<open>null\<close>. Whenever \<open>resp\<close> is the answer to the last request that an operation of
  the API client has issued, the operation has failed: with the error \<open>AUTH_EXPIRED\<close>
  when the status is 401, whatever the body; otherwise with an error whose message is
  \<open>error.message\<close> of the body when the body is an object that has one (a non-empty
  string), and with the error \<open>API Error: \<close> followed by the status in every other
  case (no body, a body that is not JSON, a JSON value that is not an object, no
  \<open>error\<close>, no \<open>message\<close>, or an empty one). This holds for \<open>request\<close> and for
  every operation that runs its requests one after the other, where a request that fails
  is the last one. \<open>listMessages\<close> fails in this way when \<open>resp\<close> answers its list
  call. Its detail fetches run at the same time: once the list call has returned a value
  other than \<open>null\<close>, every failure of \<open>listMessages\<close> is the failure of one of its
  detail fetches, each of which is a \<open>getMessage\<close>.
\<close>

theorem request_error_status:
  fixes generic failure
  assumes "truthy (accessToken w)" and "\<not> ok resp"
    and "status resp = 401 \<or> content resp \<noteq> Json Null"
  defines "generic \<equiv> Error (js ''API Error: '' @ show_nat (unat (status resp)))"
    and "failure \<equiv>
      (if status resp = 401 then Error (js ''AUTH_EXPIRED'')
       else case content resp of
              Json (Object j) \<Rightarrow>
                (case resource.error j of
                   None \<Rightarrow> generic
                 | Some e \<Rightarrow>
                     (case api_error.message e of
                        None \<Rightarrow> generic
                      | Some m \<Rightarrow> if m = [] then generic else Error m))
            | _ \<Rightarrow> generic)"
  shows "surfaces env resp failure (request env endpoint params meth pb w) \<and>
         surfaces env resp failure (getProfile env w) \<and>
         surfaces env resp failure (getMessage env mid fmt w) \<and>
         surfaces env resp failure (sendMessage env to_arg subj body_arg tid irt refs w) \<and>
         surfaces env resp failure (replyToMessage env mid body_arg w) \<and>
         surfaces env resp failure (forwardMessage env mid to_arg body_arg w) \<and>
         surfaces env resp failure (trashMessage env mid w) \<and>
         surfaces env resp failure (deleteMessage env mid w) \<and>
         surfaces env resp failure (modifyLabels env mid added removed w) \<and>
         surfaces env resp failure (markAsRead env mid w) \<and>
         surfaces env resp failure (markAsUnread env mid w) \<and>
         surfaces env resp failure (starMessage env mid w) \<and>
         surfaces env resp failure (unstarMessage env mid w) \<and>
         surfaces env resp failure (toggleStar env mid starred w) \<and>
         (fetch env (api_request w (js ''/messages'') (list_params opts) (js ''GET'') None) = Inr resp
            \<longrightarrow> fst (listMessages env opts w) = Inl failure) \<and>
         (request env (js ''/messages'') (list_params opts) (js ''GET'') None w = (Inr listed, w1) \<and>
          as_object listed = Inr list_object \<and> fst (listMessages env opts w) = Inl e
            \<longrightarrow> (\<exists>m \<in> set (case resource.messages list_object of None \<Rightarrow> [] | Some ms \<Rightarrow> ms).
                   fst (getMessage env m (Some (js ''metadata'')) w1) = Inl e))"
proof -
  have f: "failure = http_error resp"
    using assms(3) unfolding failure_def generic_def http_error_cases[of resp]
    by (auto split: content.splits json.splits)
  note rq = surfaces_request[OF assms(1,2), of env, folded f]
  have 1: "surfaces env resp failure (request env endpoint params meth pb w)"
    by (rule rq)
  have 2: "surfaces env resp failure (getProfile env w)"
    unfolding getProfile_def by (rule rq)
  have 3: "surfaces env resp failure (getMessage env mid fmt w)"
    unfolding f by (rule surfaces_getMessage[OF assms(1,2)])
  have 4: "surfaces env resp failure (sendMessage env to_arg subj body_arg tid irt refs w)"
    unfolding f by (rule surfaces_sendMessage[OF assms(1,2)])
  have 5: "surfaces env resp failure (replyToMessage env mid body_arg w)"
    unfolding f
  proof (rule surfaces_fetch_then_send[OF assms(1,2), of env mid])
    fix e' w'
    assume "getMessage env mid (Some (js ''full'')) w = (Inl e', w')"
    then show "replyToMessage env mid body_arg w = (Inl e', w')"
      by (simp add: replyToMessage_def)
  next
    fix original w'
    assume "getMessage env mid (Some (js ''full'')) w = (Inr original, w')"
    then show "\<exists>t s b th i r. replyToMessage env mid body_arg w = sendMessage env t s b th i r w'"
      unfolding replyToMessage_def Let_def by (simp only: prod.case sum.case) (intro exI, rule refl)
  qed
  have 6: "surfaces env resp failure (forwardMessage env mid to_arg body_arg w)"
    unfolding f
  proof (rule surfaces_fetch_then_send[OF assms(1,2), of env mid])
    fix e' w'
    assume "getMessage env mid (Some (js ''full'')) w = (Inl e', w')"
    then show "forwardMessage env mid to_arg body_arg w = (Inl e', w')"
      by (simp add: forwardMessage_def)
  next
    fix original w'
    assume "getMessage env mid (Some (js ''full'')) w = (Inr original, w')"
    then show "\<exists>t s b th i r. forwardMessage env mid to_arg body_arg w = sendMessage env t s b th i r w'"
      unfolding forwardMessage_def Let_def by (simp only: prod.case sum.case) (intro exI, rule refl)
  qed
  have 7: "surfaces env resp failure (trashMessage env mid w)"
    unfolding trashMessage_def by (rule rq)
  have 8: "surfaces env resp failure (deleteMessage env mid w)"
    unfolding deleteMessage_def by (rule rq)
  have 9: "surfaces env resp failure (modifyLabels env mid' added' removed' w)" for mid' added' removed'
    unfolding modifyLabels_def Let_def by (rule rq)
  have 10: "surfaces env resp failure (markAsRead env mid w)"
    unfolding markAsRead_def by (rule 9)
  have 11: "surfaces env resp failure (markAsUnread env mid w)"
    unfolding markAsUnread_def by (rule 9)
  have 12: "surfaces env resp failure (starMessage env mid' w)" for mid'
    unfolding starMessage_def by (rule 9)
  have 13: "surfaces env resp failure (unstarMessage env mid' w)" for mid'
    unfolding unstarMessage_def by (rule 9)
  have 14: "surfaces env resp failure (toggleStar env mid starred w)"
    unfolding toggleStar_def using 12 13 by simp
  have 15: "fst (listMessages env opts w) = Inl failure"
    if "fetch env (api_request w (js ''/messages'') (list_params opts) (js ''GET'') None) = Inr resp"
  proof -
    from request_not_ok[OF assms(1,2) that]
    have "fst (request env (js ''/messages'') (list_params opts) (js ''GET'') None w) = Inl failure"
      unfolding f .
    then show ?thesis
      by (cases "request env (js ''/messages'') (list_params opts) (js ''GET'') None w")
         (simp add: listMessages_def)
  qed
  have 16: "\<exists>m \<in> set (case resource.messages list_object of None \<Rightarrow> [] | Some ms \<Rightarrow> ms).
              fst (getMessage env m (Some (js ''metadata'')) w1) = Inl e"
    if l: "request env (js ''/messages'') (list_params opts) (js ''GET'') None w = (Inr listed, w1)"
      and o: "as_object listed = Inr list_object" and e: "fst (listMessages env opts w) = Inl e"
  proof -
    let ?ids = "case resource.messages list_object of None \<Rightarrow> [] | Some ms \<Rightarrow> ms"
    from e have "Promise_all (first_rejected env) (fst (fetch_details env ?ids w1)) = Inl e"
      unfolding listMessages_unfold[OF l o] by (simp split: sum.splits)
    from Promise_all_reason[OF this] show ?thesis
      by (auto simp: fetch_details_results)
  qed
  from 1 2 3 4 5 6 7 8 9 10 11 12 13 14 15 16 show ?thesis by (intro conjI impI) blast+
qed

text \<open>
  The theorem at three providers: one that answers 401 with the body \<open>null\<close> (to the
  first request of \<open>replyToMessage\<close>), one that answers 404 with the message
  \<open>Not Found\<close> (to \<open>getProfile\<close>), and one that answers 503 with a body that is not
  JSON (to \<open>trashMessage\<close>).
\<close>

theorem request_error_status_witness:
  "fst (replyToMessage (answering \<lparr>status = 401, content = Json Null\<rparr>)
          (Some (js ''m1'')) (Some (js ''Thanks'')) signed_in)
     = Inl (Error (js ''AUTH_EXPIRED'')) \<and>
   fst (getProfile (answering (json_response 404 (error_object (js ''Not Found'')))) signed_in)
     = Inl (Error (js ''Not Found'')) \<and>
   fst (trashMessage (answering \<lparr>status = 503, content = NotJson\<rparr>) (Some (js ''m1'')) signed_in)
     = Inl (Error (js ''API Error: 503''))"
proof -
  let ?r1 = "\<lparr>status = 401, content = Json Null\<rparr>"
  let ?r2 = "json_response 404 (error_object (js ''Not Found''))"
  let ?r3 = "\<lparr>status = 503, content = NotJson\<rparr>"
  have t: "truthy (accessToken signed_in)" by (simp add: signed_in_def js_def)
  have n1: "\<not> ok ?r1" and n2: "\<not> ok ?r2" and n3: "\<not> ok ?r3"
    by (simp_all add: ok_def json_response_def)
  have b1: "status ?r1 = 401 \<or> content ?r1 \<noteq> Json Null"
    and b2: "status ?r2 = 401 \<or> content ?r2 \<noteq> Json Null"
    and b3: "status ?r3 = 401 \<or> content ?r3 \<noteq> Json Null"
    by (simp_all add: json_response_def)
  have lit: "js ''Not Found'' \<noteq> []" by (simp add: js_def)
  have a: "fetch (answering r) req = Inr r" for r req
    by (simp add: answering_def)
  from request_error_status[OF t n1 b1, where env = "answering ?r1" and mid = "Some (js ''m1'')"
      and body_arg = "Some (js ''Thanks'')"]
  have "surfaces (answering ?r1) ?r1 (Error (js ''AUTH_EXPIRED''))
          (replyToMessage (answering ?r1) (Some (js ''m1'')) (Some (js ''Thanks'')) signed_in)"
    by simp
  then have 1: "fst (replyToMessage (answering ?r1) (Some (js ''m1'')) (Some (js ''Thanks'')) signed_in)
      = Inl (Error (js ''AUTH_EXPIRED''))"
    by (simp add: surfaces_def a)
  from request_error_status[OF t n2 b2, where env = "answering ?r2"]
  have "surfaces (answering ?r2) ?r2 (Error (js ''Not Found'')) (getProfile (answering ?r2) signed_in)"
    by (simp add: json_response_def error_object_def lit)
  then have 2: "fst (getProfile (answering ?r2) signed_in) = Inl (Error (js ''Not Found''))"
    by (simp add: surfaces_def a)
  from request_error_status[OF t n3 b3, where env = "answering ?r3" and mid = "Some (js ''m1'')"]
  have "surfaces (answering ?r3) ?r3 (Error (js ''API Error: '' @ js ''503''))
          (trashMessage (answering ?r3) (Some (js ''m1'')) signed_in)"
    by (simp add: show_nat_503)
  then have 3: "fst (trashMessage (answering ?r3) (Some (js ''m1'')) signed_in)
      = Inl (Error (js ''API Error: 503''))"
    by (simp add: surfaces_def a) (simp add: js_def)
  from 1 2 3 show ?thesis by (intro conjI)
qed

text \<open>
  The claim as stated fails at two inputs. It has a response with the status 401 surface
  as \<open>AUTH_EXPIRED\<close> in every operation: in \<open>listMessages\<close> on a provider that
  answers the detail fetch for \<open>a\<close> with 500 and the one for \<open>b\<close> with 401,
  where the fetch for \<open>a\<close> is the first to fail, \<open>Promise.all\<close> rejects with the
  failure of \<open>a\<close>, so the call fails with \<open>API Error: 500\<close> and the 401 does not
  surface. And it has every other response outside 200 to 299 raise the generic error: for
  the status 500 with the JSON value \<open>null\<close> as the body, \<open>response.json()\<close>
  resolves to \<open>null\<close>, the \<open>catch\<close> that provides \<open>{}\<close> for a body that cannot
  be parsed is not entered, and \<open>error.error\<close> reads a property of \<open>null\<close>:
  \<open>request\<close>, and with it \<open>getProfile\<close>, throws a \<open>TypeError\<close> instead of the
  error \<open>API Error: 500\<close> that the rest of the branch prepares. The statement above
  leaves this second kind of response out.
\<close>

theorem request_error_status_counterexample:
  "fetch failing_details (message_request signed_in (Some (js ''b'')) (js ''metadata''))
     = Inr \<lparr>status = 401, content = NoText\<rparr> \<and>
   map path (requests (snd (listMessages failing_details unread_options signed_in)))
     = [js ''/messages'', js ''/messages/a'', js ''/messages/b''] \<and>
   fst (listMessages failing_details unread_options signed_in) = Inl (Error (js ''API Error: 500'')) \<and>
   fst (getProfile (answering \<lparr>status = 500, content = Json Null\<rparr>) signed_in) = Inl TypeError"
proof -
  let ?ids = "[Some (js ''a''), Some (js ''b'')]"
  let ?req = "api_request signed_in (js ''/messages'') (list_params unread_options) (js ''GET'') None"
  let ?W1 = "signed_in\<lparr>requests := requests signed_in @ [?req]\<rparr>"
  have lit: "js ''/messages/'' @ js ''a'' = js ''/messages/a''"
    "js ''/messages/'' @ js ''b'' = js ''/messages/b''"
    "js ''/messages/a'' \<noteq> js ''/messages''" "js ''/messages/b'' \<noteq> js ''/messages''"
    "js ''/messages/a'' \<noteq> js ''/messages/b''" "js ''token'' \<noteq> []"
    by (simp_all add: js_def)
  have t: "truthy (accessToken signed_in)" "truthy (accessToken ?W1)"
    "requests signed_in = []"
    by (simp_all add: signed_in_def initial_world_def lit)
  have 1: "fetch failing_details (message_request signed_in (Some (js ''b'')) (js ''metadata''))
             = Inr \<lparr>status = 401, content = NoText\<rparr>"
    by (simp add: failing_details_def message_request_def api_request_def lit)
  have l: "request failing_details (js ''/messages'') (list_params unread_options) (js ''GET'') None
             signed_in
           = (Inr (Object (empty_object\<lparr>resource.messages := Some ?ids\<rparr>)), ?W1)"
    using t(1)
    by (simp add: request_def Let_def failing_details_def api_request_def json_response_def ok_def)
  have o: "as_object (Object (empty_object\<lparr>resource.messages := Some ?ids\<rparr>))
             = Inr (empty_object\<lparr>resource.messages := Some ?ids\<rparr>)"
    by simp
  have a: "fst (getMessage failing_details (Some (js ''a'')) (Some (js ''metadata'')) ?W1)
             = Inl (Error (js ''API Error: 500''))"
    using t(2)
    by (simp add: getMessage_result request_def Let_def failing_details_def api_request_def ok_def
        http_error_def provider_message_def empty_object_def lit show_nat.simps)
       (simp add: js_def)
  have b: "fst (getMessage failing_details (Some (js ''b'')) (Some (js ''metadata'')) ?W1)
             = Inl (Error (js ''AUTH_EXPIRED''))"
    using t(2)
    by (simp add: getMessage_result request_def Let_def failing_details_def api_request_def ok_def
        http_error_def lit)
  have p: "Promise_all hd [Inl (Error (js ''API Error: 500'')), Inl (Error (js ''AUTH_EXPIRED''))
             :: thrown + parsed_message]
             = Inl (Error (js ''API Error: 500''))"
    by (simp add: Promise_all_def upt_rec)
  have f: "first_rejected failing_details = hd"
    by (simp add: failing_details_def quiet_platform_def)
  have 3: "fst (listMessages failing_details unread_options signed_in)
             = Inl (Error (js ''API Error: 500''))"
    unfolding listMessages_unfold[OF l o]
    by (simp add: fetch_details_results a b p f del: fetch_details.simps)
  have "requests (snd (listMessages failing_details unread_options signed_in))
          = requests ?W1 @ map (\<lambda>mid. message_request ?W1 mid (js ''metadata'')) ?ids"
    unfolding listMessages_unfold[OF l o]
    by (simp add: fetch_details_requests[OF t(2)] del: fetch_details.simps)
  then have 2: "map path (requests (snd (listMessages failing_details unread_options signed_in)))
      = [js ''/messages'', js ''/messages/a'', js ''/messages/b'']"
    by (simp add: message_request_def api_request_def t(3) lit)
  have 4: "fst (getProfile (answering \<lparr>status = 500, content = Json Null\<rparr>) signed_in) = Inl TypeError"
    by (simp add: getProfile_def request_def Let_def ok_def http_error_def provider_message_def
        answering_def signed_in_def)
       (simp add: js_def)
  from 1 2 3 4 show ?thesis by (intro conjI)
qed

section \<open>Claim C3: malformed base64url in a message part\<close>

lemma parse_message_full:
  assumes "resource.payload r = Some p" and "extractEmailBody p = Inl e"
  shows "parse_message (js ''full'') r = Inl e"
  using assms by (simp add: parse_message_def Let_def)

lemma parse_message_other:
  assumes "fmt \<noteq> js ''full''"
  shows "\<exists>m. parse_message fmt r = Inr m"
  using assms by (simp add: parse_message_def Let_def split: option.splits)

lemma getMessage_unfold:
  assumes "request env (js ''/messages/'' @ tmpl mid) [(js ''format'', fmt)] (js ''GET'') None w
             = (Inr j, w')"
    and "as_object j = Inr r"
  shows "getMessage env mid (Some fmt) w = (parse_message fmt r, w')"
  using assms by (simp add: getMessage_def)

lemma getMessage_failure_passed_on:
  assumes "getMessage env mid (Some (js ''full'')) w = (Inl e, w')"
  shows "replyToMessage env mid reply_body w = (Inl e, w')"
    and "forwardMessage env mid to_arg extra w = (Inl e, w')"
  using assms by (simp_all add: replyToMessage_def forwardMessage_def)

text \<open>
  C3, as amended. \<open>extractEmailBody\<close> has no handler for a failure of
  \<open>base64Decode\<close>. When every part of the payload that carries body data has data that
  \<open>atob\<close> accepts, \<open>extractEmailBody\<close> returns an \<open>{html, plain}\<close> result; when
  some part, of any MIME type, carries data that \<open>atob\<close> rejects, \<open>extractEmailBody\<close>
  throws the \<open>InvalidCharacterError\<close> of \<open>atob\<close> and returns no result. Then
  \<open>getMessage\<close> in the format \<open>full\<close>, once \<open>request\<close> has returned a message
  with this payload, throws the same error, and so do \<open>replyToMessage\<close> and
  \<open>forwardMessage\<close>, which fetch the message in this format. In any other format (as
  the detail fetches of \<open>listMessages\<close>, which ask for \<open>metadata\<close>)
  \<open>getMessage\<close> decodes nothing and returns a message whatever the payload is.
\<close>

theorem extractEmailBody_decode_failure:
  "((\<forall>x \<in> set (walk p). decodable x) \<longrightarrow> (\<exists>r. extractEmailBody p = Inr r)) \<and>
   ((\<exists>x \<in> set (walk p). \<not> decodable x) \<longrightarrow> extractEmailBody p = Inl InvalidCharacterError) \<and>
   ((\<exists>x \<in> set (walk p). \<not> decodable x) \<and>
    request env (js ''/messages/'' @ tmpl mid) [(js ''format'', js ''full'')] (js ''GET'') None w
      = (Inr fetched, w') \<and>
    as_object fetched = Inr msg \<and> resource.payload msg = Some p \<longrightarrow>
      getMessage env mid (Some (js ''full'')) w = (Inl InvalidCharacterError, w') \<and>
      getMessage env mid None w = (Inl InvalidCharacterError, w') \<and>
      replyToMessage env mid reply_body w = (Inl InvalidCharacterError, w') \<and>
      forwardMessage env mid to_arg extra w = (Inl InvalidCharacterError, w')) \<and>
   (fmt \<noteq> js ''full'' \<and>
    request env (js ''/messages/'' @ tmpl mid) [(js ''format'', fmt)] (js ''GET'') None w
      = (Inr fetched, w') \<and>
    as_object fetched = Inr msg \<longrightarrow>
      (\<exists>m. getMessage env mid (Some fmt) w = (Inr m, w')))"
proof -
  have 1: "((\<forall>x \<in> set (walk p). decodable x) \<longrightarrow> (\<exists>r. extractEmailBody p = Inr r)) \<and>
     ((\<exists>x \<in> set (walk p). \<not> decodable x) \<longrightarrow> extractEmailBody p = Inl InvalidCharacterError)"
  proof (cases "processPayload p \<lparr>html = [], plain = []\<rparr>")
    case (Inl e)
    from process_error(1)[OF Inl] Inl process_isl(1)[of p "\<lparr>html = [], plain = []\<rparr>"]
    show ?thesis by (simp add: extractEmailBody_def)
  next
    case (Inr result)
    with process_isl(1)[of p "\<lparr>html = [], plain = []\<rparr>"]
    show ?thesis by (simp add: extractEmailBody_def)
  qed
  have 3: "getMessage env mid (Some (js ''full'')) w = (Inl InvalidCharacterError, w') \<and>
      getMessage env mid None w = (Inl InvalidCharacterError, w') \<and>
      replyToMessage env mid reply_body w = (Inl InvalidCharacterError, w') \<and>
      forwardMessage env mid to_arg extra w = (Inl InvalidCharacterError, w')"
    if bad: "\<exists>x \<in> set (walk p). \<not> decodable x"
      and q: "request env (js ''/messages/'' @ tmpl mid) [(js ''format'', js ''full'')] (js ''GET'') None w
           = (Inr fetched, w')"
      and o: "as_object fetched = Inr msg" and pl: "resource.payload msg = Some p"
  proof -
    from 1 bad have "extractEmailBody p = Inl InvalidCharacterError" by blast
    from parse_message_full[OF pl this] getMessage_unfold[OF q o]
    have g: "getMessage env mid (Some (js ''full'')) w = (Inl InvalidCharacterError, w')"
      by simp
    have "getMessage env mid None w = getMessage env mid (Some (js ''full'')) w"
      by (simp add: getMessage_def)
    with g getMessage_failure_passed_on[OF g] show ?thesis by simp
  qed
  have 4: "\<exists>m. getMessage env mid (Some fmt) w = (Inr m, w')"
    if "fmt \<noteq> js ''full''"
      and "request env (js ''/messages/'' @ tmpl mid) [(js ''format'', fmt)] (js ''GET'') None w
           = (Inr fetched, w')"
      and "as_object fetched = Inr msg"
    using parse_message_other[OF that(1), of msg] getMessage_unfold[OF that(2,3)] by auto
  from 1 3 4 show ?thesis by blast
qed

text \<open>
  The theorem at a plain-text part with the data \<open>YSA8IGI\<close> (which decodes to
  \<open>a < b\<close>) and at a plain-text part with the data \<open>!\<close>; and at a provider that
  answers every request with a message whose payload is the second part: \<open>getMessage\<close>
  throws in the format \<open>full\<close> and returns in the format \<open>metadata\<close>.
\<close>

theorem extractEmailBody_decode_failure_witness:
  "decodable (Part (Some (js ''text/plain'')) None (Some (Body (Some (js ''YSA8IGI'')))) None) \<and>
   (\<exists>r. extractEmailBody
          (Part (Some (js ''text/plain'')) None (Some (Body (Some (js ''YSA8IGI'')))) None) = Inr r) \<and>
   \<not> decodable (Part (Some (js ''text/plain'')) None (Some (Body (Some (js ''!'')))) None) \<and>
   extractEmailBody (Part (Some (js ''text/plain'')) None (Some (Body (Some (js ''!'')))) None)
     = Inl InvalidCharacterError \<and>
   fst (getMessage
          (answering (json_response 200 (empty_object\<lparr>resource.payload :=
             Some (Part (Some (js ''text/plain'')) None (Some (Body (Some (js ''!'')))) None)\<rparr>)))
          (Some (js ''m1'')) (Some (js ''full'')) signed_in)
     = Inl InvalidCharacterError \<and>
   \<not> isl (fst (getMessage
          (answering (json_response 200 (empty_object\<lparr>resource.payload :=
             Some (Part (Some (js ''text/plain'')) None (Some (Body (Some (js ''!'')))) None)\<rparr>)))
          (Some (js ''m1'')) (Some (js ''metadata'')) signed_in))"
proof -
  let ?good = "Part (Some (js ''text/plain'')) None (Some (Body (Some (js ''YSA8IGI'')))) None"
  let ?bad = "Part (Some (js ''text/plain'')) None (Some (Body (Some (js ''!'')))) None"
  let ?r = "empty_object\<lparr>resource.payload := Some ?bad\<rparr>"
  let ?E = "answering (json_response 200 ?r)"
  let ?W = signed_in
  have g: "decodable ?good"
    by (simp add: decodable_def has_data_def part_data_def decode_a_lt_b)
  have b: "\<not> decodable ?bad"
    by (simp add: decodable_def has_data_def part_data_def decode_bang) (simp add: js_def)
  from g have "\<forall>x \<in> set (walk ?good). decodable x" by simp
  with extractEmailBody_decode_failure[of ?good]
  have 1: "\<exists>r. extractEmailBody ?good = Inr r" by blast
  from b have bad: "\<exists>x \<in> set (walk ?bad). \<not> decodable x" by simp
  with extractEmailBody_decode_failure[of ?bad]
  have 2: "extractEmailBody ?bad = Inl InvalidCharacterError" by blast
  have tok: "js ''token'' \<noteq> []" "js ''metadata'' \<noteq> js ''full''" by (simp_all add: js_def)
  have q: "request ?E (js ''/messages/'' @ tmpl (Some (js ''m1''))) [(js ''format'', f)] (js ''GET'') None ?W
             = (Inr (Object ?r),
                ?W\<lparr>requests := requests ?W
                   @ [api_request ?W (js ''/messages/'' @ tmpl (Some (js ''m1''))) [(js ''format'', f)]
                        (js ''GET'') None]\<rparr>)" for f
    by (simp add: request_def Let_def ok_def json_response_def tok answering_def signed_in_def)
  have o: "as_object (Object ?r) = Inr ?r" "resource.payload ?r = Some ?bad" by simp_all
  from extractEmailBody_decode_failure[where p = ?bad and env = ?E and mid = "Some (js ''m1'')"
      and w = ?W and fetched = "Object ?r" and msg = ?r] bad q[of "js ''full''"] o
  have 3: "fst (getMessage ?E (Some (js ''m1'')) (Some (js ''full'')) ?W) = Inl InvalidCharacterError"
    by simp
  let ?W1 = "?W\<lparr>requests := requests ?W
                @ [api_request ?W (js ''/messages/'' @ tmpl (Some (js ''m1'')))
                     [(js ''format'', js ''metadata'')] (js ''GET'') None]\<rparr>"
  from extractEmailBody_decode_failure[where p = ?bad and env = ?E and mid = "Some (js ''m1'')"
      and w = ?W and fetched = "Object ?r" and msg = ?r and fmt = "js ''metadata''" and w' = ?W1]
    q[of "js ''metadata''"] o(1) tok(2)
  have "\<exists>m. getMessage ?E (Some (js ''m1'')) (Some (js ''metadata'')) ?W = (Inr m, ?W1)"
    by blast
  then have 4: "\<not> isl (fst (getMessage ?E (Some (js ''m1'')) (Some (js ''metadata'')) ?W))"
    by auto
  from g 1 b 2 3 4 show ?thesis by (intro conjI)
qed

text \<open>
  The claim as stated says that a part with malformed data counts as empty and that
  \<open>extractEmailBody\<close> still returns. For the payload that is one plain-text part with
  the data \<open>!\<close> it throws.
\<close>

theorem extractEmailBody_decode_failure_counterexample:
  "extractEmailBody (Part (Some (js ''text/plain'')) None (Some (Body (Some (js ''!'')))) None)
     = Inl InvalidCharacterError"
  by (simp add: extractEmailBody_def process_body_def decode_bang) (simp add: js_def)

section \<open>Claim C4: the allow-list of parseEmailHeaders\<close>




section \<open>Claim C5: what a poll cycle notifies and remembers\<close>

text \<open>
  A cycle that has a token, finds the notifications not disabled and gets the unread
  messages: what it leaves, in terms of the loop over the messages.
\<close>

lemma checkForNewEmails_fetched:
  assumes "getAuthToken env False = (None, Some t)" and "t \<noteq> []"
    and "storage_get env = Inr stored" and "notificationsEnabled stored \<noteq> Some False"
    and "listMessages env unread_options (w\<lparr>accessToken := Some t\<rparr>) = (Inr result, w2)"
  shows "lastKnownMessageIds w = {} \<Longrightarrow>
           checkForNewEmails env w
             = w2\<lparr>lastKnownMessageIds := set (map parsed_message.id' (list_result.messages result))\<rparr>"
    and "lastKnownMessageIds w \<noteq> {} \<Longrightarrow>
           checkForNewEmails env w
             = (case notify_new env (lastKnownMessageIds w) (list_result.messages result) w2 of
                  (Some e, w3) \<Rightarrow> w3
                | (None, w3) \<Rightarrow>
                    w3\<lparr>lastKnownMessageIds :=
                         set (map parsed_message.id' (list_result.messages result))\<rparr>)"
    and "lastKnownMessageIds w2 = lastKnownMessageIds w"
    and "notifications w2 = notifications w"
proof -
  have a: "authenticateSilently env w = (Some t, w\<lparr>accessToken := Some t\<rparr>)"
    using assms(1,2) by (simp add: authenticateSilently_def)
  from listMessages_frame(2,3)[of env unread_options "w\<lparr>accessToken := Some t\<rparr>"] assms(5)
  show w2: "lastKnownMessageIds w2 = lastKnownMessageIds w" "notifications w2 = notifications w"
    by simp_all
  show "checkForNewEmails env w
          = w2\<lparr>lastKnownMessageIds := set (map parsed_message.id' (list_result.messages result))\<rparr>"
    if "lastKnownMessageIds w = {}"
    using a assms(2,3,4,5) w2 that by (simp add: checkForNewEmails_def Let_def del: set_map)
  show "checkForNewEmails env w
          = (case notify_new env (lastKnownMessageIds w) (list_result.messages result) w2 of
               (Some e, w3) \<Rightarrow> w3
             | (None, w3) \<Rightarrow>
                 w3\<lparr>lastKnownMessageIds :=
                      set (map parsed_message.id' (list_result.messages result))\<rparr>)"
    if "lastKnownMessageIds w \<noteq> {}"
    using a assms(2,3,4,5) w2 that by (simp add: checkForNewEmails_def Let_def del: set_map)
qed

text \<open>
  C5, as amended. Take a poll cycle in which the silent authentication gives a token, the
  notifications are not disabled, and the fetch of the unread messages returns. The
  first request of the cycle is the list call for at most 10 messages of the inbox that
  match \<open>is:unread\<close>. If \<open>lastKnownMessageIds\<close> is empty when the cycle starts, no
  notification is raised and the set is replaced by the ids of the fetched messages. If it
  is not empty, the cycle goes through the fetched messages whose id is not in the set, in
  the order of the fetch, and raises for each one notification, under the id
  \<open>exmail-new-\<close> followed by the id of the message. When the platform accepts all of
  them, the set is then replaced by the ids of the fetched messages. When the platform
  rejects one of them, the cycle ends there: the notifications before the rejected one
  have been raised, the later ones are not, and the set stays as it was.
\<close>

theorem checkForNewEmails_cycle:
  fixes fresh notice accepted
  assumes "getAuthToken env False = (None, Some t)" and "t \<noteq> []"
    and "storage_get env = Inr stored" and "notificationsEnabled stored \<noteq> Some False"
    and "listMessages env unread_options (w\<lparr>accessToken := Some t\<rparr>) = (Inr result, w2)"
  defines "fresh \<equiv> filter (\<lambda>msg. parsed_message.id' msg \<notin> lastKnownMessageIds w)
                        (list_result.messages result)"
    and "notice \<equiv> (\<lambda>msg. (js ''exmail-new-'' @ tmpl (parsed_message.id' msg),
                            notification_for env msg))"
    and "accepted \<equiv> (\<lambda>msg. notifications_create env (js ''exmail-new-'' @ tmpl (parsed_message.id' msg))
                               (notification_for env msg) = None)"
  shows "(\<exists>details. requests (checkForNewEmails env w)
            = requests w
              @ api_request (w\<lparr>accessToken := Some t\<rparr>) (js ''/messages'')
                  [(js ''maxResults'', js ''10''), (js ''labelIds'', js ''INBOX''),
                   (js ''q'', js ''is:unread'')] (js ''GET'') None
              # details) \<and>
         (lastKnownMessageIds w = {} \<longrightarrow>
            notifications (checkForNewEmails env w) = notifications w \<and>
            lastKnownMessageIds (checkForNewEmails env w)
              = set (map parsed_message.id' (list_result.messages result))) \<and>
         (lastKnownMessageIds w \<noteq> {} \<and> (\<forall>msg \<in> set fresh. accepted msg) \<longrightarrow>
            notifications (checkForNewEmails env w) = notifications w @ map notice fresh \<and>
            lastKnownMessageIds (checkForNewEmails env w)
              = set (map parsed_message.id' (list_result.messages result))) \<and>
         (lastKnownMessageIds w \<noteq> {} \<and> (\<exists>msg \<in> set fresh. \<not> accepted msg) \<longrightarrow>
            notifications (checkForNewEmails env w)
              = notifications w @ map notice (takeWhile accepted fresh) \<and>
            lastKnownMessageIds (checkForNewEmails env w) = lastKnownMessageIds w)"
proof -
  note c = checkForNewEmails_fetched[OF assms(1-5)]
  let ?msgs = "list_result.messages result"
  let ?loop = "notify_new env (lastKnownMessageIds w) ?msgs w2"
  have n: "notice = raised env"
    by (simp add: notice_def raised_def NOTIFICATION_ID_PREFIX_def fun_eq_iff)
  have acc: "accepted = (\<lambda>msg. notifications_create env (fst (raised env msg)) (snd (raised env msg)) = None)"
    by (simp add: accepted_def raised_def NOTIFICATION_ID_PREFIX_def fun_eq_iff)
  have loop_n: "notifications (snd ?loop) = notifications w @ map notice (takeWhile accepted fresh)"
    unfolding n acc fresh_def by (simp add: notify_new_notifications c(4))
  have loop_o: "fst ?loop = None \<longleftrightarrow> (\<forall>msg \<in> set fresh. accepted msg)"
    unfolding acc fresh_def by (rule notify_new_outcome)
  have loop_f: "lastKnownMessageIds (snd ?loop) = lastKnownMessageIds w"
    "requests (snd ?loop) = requests w2"
    using notify_new_frame[of env "lastKnownMessageIds w" ?msgs w2] c(3) by simp_all
  have rq: "requests (checkForNewEmails env w) = requests w2"
  proof (cases "lastKnownMessageIds w = {}")
    case True
    from c(1)[OF this] show ?thesis by simp
  next
    case False
    from c(2)[OF this] loop_f(2) show ?thesis
      by (cases ?loop) (auto split: option.splits)
  qed
  have "truthy (accessToken (w\<lparr>accessToken := Some t\<rparr>))" using assms(2) by simp
  from listMessages_first_request[OF this, of env unread_options] assms(5)
  have 1: "\<exists>details. requests (checkForNewEmails env w)
            = requests w
              @ api_request (w\<lparr>accessToken := Some t\<rparr>) (js ''/messages'')
                  [(js ''maxResults'', js ''10''), (js ''labelIds'', js ''INBOX''),
                   (js ''q'', js ''is:unread'')] (js ''GET'') None
              # details"
    unfolding rq list_params_unread by simp
  have 2: "notifications (checkForNewEmails env w) = notifications w \<and>
           lastKnownMessageIds (checkForNewEmails env w) = set (map parsed_message.id' ?msgs)"
    if "lastKnownMessageIds w = {}"
    using c(1)[OF that] c(4) by (simp del: set_map)
  have 3: "notifications (checkForNewEmails env w) = notifications w @ map notice fresh \<and>
           lastKnownMessageIds (checkForNewEmails env w) = set (map parsed_message.id' ?msgs)"
    if "lastKnownMessageIds w \<noteq> {}" and all: "\<forall>msg \<in> set fresh. accepted msg"
  proof -
    from all have tw: "takeWhile accepted fresh = fresh" by (simp add: takeWhile_eq_all_conv)
    from all loop_o have "fst ?loop = None" by simp
    then have "checkForNewEmails env w
                 = (snd ?loop)\<lparr>lastKnownMessageIds := set (map parsed_message.id' ?msgs)\<rparr>"
      unfolding c(2)[OF that(1)] by (cases ?loop) simp
    with loop_n tw show ?thesis by (simp del: set_map)
  qed
  have 4: "notifications (checkForNewEmails env w)
             = notifications w @ map notice (takeWhile accepted fresh) \<and>
           lastKnownMessageIds (checkForNewEmails env w) = lastKnownMessageIds w"
    if "lastKnownMessageIds w \<noteq> {}" and some: "\<exists>msg \<in> set fresh. \<not> accepted msg"
  proof -
    from some loop_o have "fst ?loop \<noteq> None" by blast
    then have "checkForNewEmails env w = snd ?loop"
      unfolding c(2)[OF that(1)] by (cases ?loop) auto
    with loop_n loop_f(1) show ?thesis by simp
  qed
  from 1 2 3 4 show ?thesis by blast
qed

text \<open>
  The theorem at three cycles: the first on an empty set with the unread messages \<open>a\<close>
  and \<open>b\<close>; the second on the set that the first leaves, with the unread messages
  \<open>c\<close> and \<open>a\<close>; the third like the second, on a platform that rejects every
  notification.
\<close>

theorem checkForNewEmails_cycle_witness:
  "lastKnownMessageIds (checkForNewEmails (mailbox_platform [js ''a'', js ''b'']) initial_world)
     = {Some (js ''a''), Some (js ''b'')} \<and>
   notifications (checkForNewEmails (mailbox_platform [js ''a'', js ''b'']) initial_world) = [] \<and>
   query (hd (requests (checkForNewEmails (mailbox_platform [js ''a'', js ''b'']) initial_world)))
     = [(js ''maxResults'', js ''10''), (js ''labelIds'', js ''INBOX''), (js ''q'', js ''is:unread'')] \<and>
   lastKnownMessageIds (checkForNewEmails (mailbox_platform [js ''c'', js ''a''])
       (initial_world\<lparr>lastKnownMessageIds := {Some (js ''a''), Some (js ''b'')}\<rparr>))
     = {Some (js ''c''), Some (js ''a'')} \<and>
   map fst (notifications (checkForNewEmails (mailbox_platform [js ''c'', js ''a''])
       (initial_world\<lparr>lastKnownMessageIds := {Some (js ''a''), Some (js ''b'')}\<rparr>)))
     = [js ''exmail-new-c''] \<and>
   lastKnownMessageIds (checkForNewEmails
       (rejecting_notifications (mailbox_platform [js ''c'', js ''a'']))
       (initial_world\<lparr>lastKnownMessageIds := {Some (js ''a''), Some (js ''b'')}\<rparr>))
     = {Some (js ''a''), Some (js ''b'')} \<and>
   notifications (checkForNewEmails
       (rejecting_notifications (mailbox_platform [js ''c'', js ''a'']))
       (initial_world\<lparr>lastKnownMessageIds := {Some (js ''a''), Some (js ''b'')}\<rparr>))
     = []"
proof -
  let ?E1 = "mailbox_platform [js ''a'', js ''b'']"
  let ?E2 = "mailbox_platform [js ''c'', js ''a'']"
  let ?E3 = "rejecting_notifications (mailbox_platform [js ''c'', js ''a''])"
  let ?K = "{Some (js ''a''), Some (js ''b'')}"
  let ?W = "initial_world\<lparr>lastKnownMessageIds := ?K\<rparr>"
  have tok: "js ''token'' \<noteq> []" by (simp add: js_def)
  have lit: "Some (js ''c'') \<notin> ?K" "Some (js ''a'') \<in> ?K"
    "js ''exmail-new-'' @ js ''c'' = js ''exmail-new-c''"
    by (simp_all add: js_def)
  have en: "notificationsEnabled \<lparr>notificationsEnabled = None\<rparr> \<noteq> Some False" by simp
  have listed: "\<exists>result w2. listMessages E unread_options (w\<lparr>accessToken := Some (js ''token'')\<rparr>)
        = (Inr result, w2) \<and> map parsed_message.id' (list_result.messages result) = map Some xs"
    if "fetch E = mailbox_fetch xs" for E xs w
    using mailbox_listMessages[of "w\<lparr>accessToken := Some (js ''token'')\<rparr>" E xs unread_options] tok that
    by simp
  have p1: "getAuthToken ?E1 False = (None, Some (js ''token''))"
    "storage_get ?E1 = Inr \<lparr>notificationsEnabled = None\<rparr>" "fetch ?E1 = mailbox_fetch [js ''a'', js ''b'']"
    by (simp_all add: mailbox_platform_def quiet_platform_def)
  have p2: "getAuthToken ?E2 False = (None, Some (js ''token''))"
    "storage_get ?E2 = Inr \<lparr>notificationsEnabled = None\<rparr>" "fetch ?E2 = mailbox_fetch [js ''c'', js ''a'']"
    "notifications_create ?E2 = (\<lambda>nid options. None)"
    by (simp_all add: mailbox_platform_def quiet_platform_def)
  have p3: "getAuthToken ?E3 False = (None, Some (js ''token''))"
    "storage_get ?E3 = Inr \<lparr>notificationsEnabled = None\<rparr>" "fetch ?E3 = mailbox_fetch [js ''c'', js ''a'']"
    "notifications_create ?E3
       = (\<lambda>nid options. Some (Rejected (js ''Unable to download all specified images.'')))"
    by (simp_all add: mailbox_platform_def quiet_platform_def rejecting_notifications_def)

  from listed[OF p1(3), of initial_world] obtain r1 v1
    where l1: "listMessages ?E1 unread_options (initial_world\<lparr>accessToken := Some (js ''token'')\<rparr>)
                 = (Inr r1, v1)"
      and i1: "map parsed_message.id' (list_result.messages r1) = map Some [js ''a'', js ''b'']"
    by blast
  note t1 = checkForNewEmails_cycle[OF p1(1) tok p1(2) en l1]
  have e1: "lastKnownMessageIds initial_world = {}" "requests initial_world = []"
    "notifications initial_world = []"
    by (simp_all add: initial_world_def)
  from t1 e1(1,3) have a1: "notifications (checkForNewEmails ?E1 initial_world) = []"
    and a2: "lastKnownMessageIds (checkForNewEmails ?E1 initial_world)
               = set (map parsed_message.id' (list_result.messages r1))"
    by simp_all
  from a2 have a2: "lastKnownMessageIds (checkForNewEmails ?E1 initial_world)
      = {Some (js ''a''), Some (js ''b'')}"
    unfolding i1 by simp
  from t1 obtain details where "requests (checkForNewEmails ?E1 initial_world)
      = requests initial_world
        @ api_request (initial_world\<lparr>accessToken := Some (js ''token'')\<rparr>) (js ''/messages'')
            [(js ''maxResults'', js ''10''), (js ''labelIds'', js ''INBOX''),
             (js ''q'', js ''is:unread'')] (js ''GET'') None
        # details"
    by blast
  then have a3: "query (hd (requests (checkForNewEmails ?E1 initial_world)))
     = [(js ''maxResults'', js ''10''), (js ''labelIds'', js ''INBOX''), (js ''q'', js ''is:unread'')]"
    by (simp add: e1(2) api_request_def)

  have W: "lastKnownMessageIds ?W = ?K" "lastKnownMessageIds ?W \<noteq> {}" "notifications ?W = []"
    by (simp_all add: initial_world_def)
  from listed[OF p2(3), of ?W] obtain r2 v2
    where l2: "listMessages ?E2 unread_options (?W\<lparr>accessToken := Some (js ''token'')\<rparr>) = (Inr r2, v2)"
      and i2: "map parsed_message.id' (list_result.messages r2) = map Some [js ''c'', js ''a'']"
    by blast
  let ?fresh2 = "filter (\<lambda>msg. parsed_message.id' msg \<notin> lastKnownMessageIds ?W) (list_result.messages r2)"
  have acc2: "\<forall>msg \<in> set ?fresh2.
      notifications_create ?E2 (js ''exmail-new-'' @ tmpl (parsed_message.id' msg))
        (notification_for ?E2 msg) = None"
    unfolding p2(4) by simp
  from checkForNewEmails_cycle[OF p2(1) tok p2(2) en l2] W(2) acc2
  have b1: "notifications (checkForNewEmails ?E2 ?W)
      = notifications ?W
        @ map (\<lambda>msg. (js ''exmail-new-'' @ tmpl (parsed_message.id' msg), notification_for ?E2 msg)) ?fresh2"
    and b2: "lastKnownMessageIds (checkForNewEmails ?E2 ?W)
               = set (map parsed_message.id' (list_result.messages r2))"
    by blast+
  from b2 have b2: "lastKnownMessageIds (checkForNewEmails ?E2 ?W) = {Some (js ''c''), Some (js ''a'')}"
    unfolding i2 by simp
  have "map fst (notifications (checkForNewEmails ?E2 ?W))
      = map (\<lambda>i. js ''exmail-new-'' @ tmpl i)
          (filter (\<lambda>i. i \<notin> lastKnownMessageIds ?W) (map parsed_message.id' (list_result.messages r2)))"
    unfolding b1 W(3) append_Nil by (rule notice_ids)
  then have b1: "map fst (notifications (checkForNewEmails ?E2 ?W)) = [js ''exmail-new-c'']"
    unfolding i2 W(1) using lit by simp

  from listed[OF p3(3), of ?W] obtain r3 v3
    where l3: "listMessages ?E3 unread_options (?W\<lparr>accessToken := Some (js ''token'')\<rparr>) = (Inr r3, v3)"
      and i3: "map parsed_message.id' (list_result.messages r3) = map Some [js ''c'', js ''a'']"
    by blast
  let ?fresh3 = "filter (\<lambda>msg. parsed_message.id' msg \<notin> lastKnownMessageIds ?W) (list_result.messages r3)"
  have "map parsed_message.id' ?fresh3 = [Some (js ''c'')]"
    unfolding filter_ids i3 W(1) using lit by simp
  then have "?fresh3 \<noteq> []" by auto
  then have rej3: "\<exists>msg \<in> set ?fresh3.
      \<not> notifications_create ?E3 (js ''exmail-new-'' @ tmpl (parsed_message.id' msg))
          (notification_for ?E3 msg) = None"
    unfolding p3(4) by (cases ?fresh3) auto
  have tw3: "takeWhile (\<lambda>msg. notifications_create ?E3 (js ''exmail-new-'' @ tmpl (parsed_message.id' msg))
                 (notification_for ?E3 msg) = None) ?fresh3 = []"
    unfolding p3(4) by (simp add: takeWhile_eq_Nil_iff)
  from checkForNewEmails_cycle[OF p3(1) tok p3(2) en l3] W(2) rej3
  have c1: "notifications (checkForNewEmails ?E3 ?W)
      = notifications ?W
        @ map (\<lambda>msg. (js ''exmail-new-'' @ tmpl (parsed_message.id' msg), notification_for ?E3 msg))
            (takeWhile (\<lambda>msg. notifications_create ?E3 (js ''exmail-new-'' @ tmpl (parsed_message.id' msg))
                 (notification_for ?E3 msg) = None) ?fresh3)"
    and c2: "lastKnownMessageIds (checkForNewEmails ?E3 ?W) = lastKnownMessageIds ?W"
    by blast+
  from c1 have c1: "notifications (checkForNewEmails ?E3 ?W) = []"
    unfolding tw3 W(3) by simp
  from c2 have c2: "lastKnownMessageIds (checkForNewEmails ?E3 ?W) = ?K"
    unfolding W(1) .
  from a2 a1 a3 b2 b1 c2 c1 show ?thesis by (intro conjI)
qed

text \<open>
  The claim as stated has the set replaced in every cycle, and one notification raised for
  each new message. On a platform that rejects the notifications, with the set \<open>{a}\<close>
  and the unread message \<open>b\<close>: the fetch succeeds, \<open>showNotification\<close> throws, the
  \<open>catch\<close> of \<open>checkForNewEmails\<close> skips the assignment, and the cycle leaves the
  set \<open>{a}\<close> and no notification.
\<close>

theorem checkForNewEmails_cycle_counterexample:
  "lastKnownMessageIds (checkForNewEmails
       (rejecting_notifications (mailbox_platform [js ''b'']))
       (initial_world\<lparr>lastKnownMessageIds := {Some (js ''a'')}\<rparr>))
     = {Some (js ''a'')} \<and>
   notifications (checkForNewEmails
       (rejecting_notifications (mailbox_platform [js ''b'']))
       (initial_world\<lparr>lastKnownMessageIds := {Some (js ''a'')}\<rparr>))
     = []"
proof -
  let ?E = "rejecting_notifications (mailbox_platform [js ''b''])"
  let ?W = "initial_world\<lparr>lastKnownMessageIds := {Some (js ''a'')}\<rparr>"
  have tok: "js ''token'' \<noteq> []" "Some (js ''b'') \<notin> {Some (js ''a'')}" by (simp_all add: js_def)
  have p: "getAuthToken ?E False = (None, Some (js ''token''))"
    "storage_get ?E = Inr \<lparr>notificationsEnabled = None\<rparr>" "fetch ?E = mailbox_fetch [js ''b'']"
    "notifications_create ?E
       = (\<lambda>nid options. Some (Rejected (js ''Unable to download all specified images.'')))"
    by (simp_all add: mailbox_platform_def quiet_platform_def rejecting_notifications_def)
  have W: "lastKnownMessageIds ?W = {Some (js ''a'')}" "lastKnownMessageIds ?W \<noteq> {}"
    "notifications ?W = []"
    by (simp_all add: initial_world_def)
  from mailbox_listMessages[of "?W\<lparr>accessToken := Some (js ''token'')\<rparr>" ?E "[js ''b'']" unread_options]
    tok(1) p(3)
  obtain result w2
    where l: "listMessages ?E unread_options (?W\<lparr>accessToken := Some (js ''token'')\<rparr>) = (Inr result, w2)"
      and i: "map parsed_message.id' (list_result.messages result) = map Some [js ''b'']"
    by auto
  from i obtain m where m: "list_result.messages result = [m]" "parsed_message.id' m = Some (js ''b'')"
    by auto
  have en: "notificationsEnabled \<lparr>notificationsEnabled = None\<rparr> \<noteq> Some False" by simp
  note c = checkForNewEmails_fetched[OF p(1) tok(1) p(2) en l]
  have "notify_new ?E {Some (js ''a'')} [m] w2
          = (Some (Rejected (js ''Unable to download all specified images.'')), w2)"
    using m(2) tok(2) by (simp add: showNotification_def Let_def p(4))
  with c(2)[OF W(2)] have "checkForNewEmails ?E ?W = w2"
    unfolding W(1) m(1) by simp
  with c(3,4) W show ?thesis by simp
qed

section \<open>Claim C6: round trip of base64Encode and base64Decode\<close>

text \<open>
  C6, as amended. For every string \<open>s\<close> that has no unpaired surrogate code unit and does
  not begin with U+FEFF, \<open>base64Encode(s)\<close> returns a string \<open>t\<close> and
  \<open>base64Decode(t)\<close> returns \<open>s\<close>. This covers the empty string and strings with
  characters beyond ASCII, those outside the basic plane included (as surrogate pairs).
\<close>

theorem base64_round_trip:
  assumes "well_formed s" and "s = [] \<or> hd s \<noteq> 0xFEFF"
  shows "\<exists>t. base64Encode s = Inr t \<and> base64Decode t = Inr s"
proof -
  obtain t where t: "base64Encode s = Inr t"
    using base64Encode_total by blast
  have "base64Decode t = Inr s"
    using assms by (simp add: base64Decode_Encode[OF t] utf16_scalars_no_bom utf16_units_scalars)
  with t show ?thesis by blast
qed

text \<open>
  The theorem at the string of the code units 0x68, 0xE9, 0xD83D, 0xDE00 (h, e with acute accent, U+1F600),
  whose encoding is \<open>aMOp8J-YgA\<close>.
\<close>

theorem base64_round_trip_witness:
  "well_formed [0x68, 0xE9, 0xD83D, 0xDE00] \<and> hd [0x68, 0xE9, 0xD83D, 0xDE00 :: 16 word] \<noteq> 0xFEFF
   \<and> base64Encode [0x68, 0xE9, 0xD83D, 0xDE00] = Inr (js ''aMOp8J-YgA'')
   \<and> base64Decode (js ''aMOp8J-YgA'') = Inr [0x68, 0xE9, 0xD83D, 0xDE00]"
proof -
  let ?s = "[0x68, 0xE9, 0xD83D, 0xDE00] :: jsstring"
  have wf: "well_formed ?s" and hd: "hd ?s \<noteq> 0xFEFF"
    by (simp_all add: is_high_def is_low_def)
  have enc: "base64Encode ?s = Inr (js ''aMOp8J-YgA'')"
    by (simp add: base64Encode_bytes is_high_def is_low_def utf8_bytes_def b64_char_def
        b64_alphabet_def js_def strip_trailing_eq_def)
  from base64_round_trip[OF wf] hd obtain t
    where "base64Encode ?s = Inr t" "base64Decode t = Inr ?s" by auto
  with enc have "base64Decode (js ''aMOp8J-YgA'') = Inr ?s" by simp
  with wf hd enc show ?thesis by blast
qed

text \<open>
  The claim as stated, for every string, fails in two places. \<open>TextDecoder\<close> drops a
  byte order mark at the start of its output, so the one-character string U+FEFF comes
  back empty; and \<open>TextEncoder\<close> replaces an unpaired surrogate by U+FFFD, so the
  one-unit string 0xD800 comes back as U+FFFD.
\<close>

theorem base64_round_trip_counterexample:
  "base64Encode [0xFEFF] = Inr (js ''77u_'') \<and> base64Decode (js ''77u_'') = Inr []
   \<and> base64Encode [0xD800] = Inr (js ''77-9'') \<and> base64Decode (js ''77-9'') = Inr [0xFFFD]"
proof -
  have e1: "base64Encode [0xFEFF] = Inr (js ''77u_'')"
    by (simp add: base64Encode_bytes is_high_def is_low_def utf8_bytes_def b64_char_def
        b64_alphabet_def js_def strip_trailing_eq_def)
  have e2: "base64Encode [0xD800] = Inr (js ''77-9'')"
    by (simp add: base64Encode_bytes is_high_def is_low_def utf8_bytes_def b64_char_def
        b64_alphabet_def js_def strip_trailing_eq_def)
  have d1: "base64Decode (js ''77u_'') = Inr []"
    by (simp add: base64Decode_Encode[OF e1] is_high_def is_low_def strip_bom_def)
  have d2: "base64Decode (js ''77-9'') = Inr [0xFFFD]"
    by (simp add: base64Decode_Encode[OF e2] is_high_def is_low_def strip_bom_def utf16_units_def)
  from e1 d1 e2 d2 show ?thesis by blast
qed

section \<open>Claim C7: replyToMessage\<close>







section \<open>Claim C8: HTML synthesized from the plain text\<close>

text \<open>
  C8. When \<open>extractEmailBody\<close> returns \<open>r\<close> for a payload in which no part with
  body data has the type \<open>text/html\<close>, and the plain text of \<open>r\<close> is not empty, then
  the HTML of \<open>r\<close> is the plain text after the four replacements of the code, in their
  order. This is the same as replacing every character on its own: \<open>&\<close> by
  \<open>&amp;\<close>, \<open><\<close> by \<open>&lt;\<close>, \<open>>\<close> by \<open>&gt;\<close>, a line feed by \<open><br>\<close>, and
  any other character by itself; so a \<open><\<close>, \<open>>\<close> or \<open>&\<close> of the plain text never
  stands unescaped in the HTML.
\<close>

theorem extractEmailBody_synthesized_html:
  assumes "extractEmailBody p = Inr r"
    and "\<forall>x \<in> set (walk p). \<not> html_part x"
    and "plain r \<noteq> []"
  shows "html r = plain_to_html (plain r) \<and> html r = concat (map escape_char (plain r))"
proof -
  from assms(1) obtain result where res: "processPayload p \<lparr>html = [], plain = []\<rparr> = Inr result"
    by (auto simp: extractEmailBody_def split: sum.splits)
  from process_html(1)[OF res assms(2)] have h: "html result = []" by simp
  from assms(1) res h have "plain r = plain result"
    by (auto simp: extractEmailBody_def split: if_splits)
  with assms(1,3) res h have "html r = plain_to_html (plain r)"
    by (auto simp: extractEmailBody_def split: if_splits)
  then show ?thesis by (simp add: plain_to_html_escape)
qed

text \<open>The theorem at a payload that is one plain-text part with the text \<open>a < b\<close>.\<close>

theorem extractEmailBody_synthesized_html_witness:
  "extractEmailBody (Part (Some (js ''text/plain'')) None (Some (Body (Some (js ''YSA8IGI'')))) None)
     = Inr \<lparr>html = js ''a &lt; b'', plain = js ''a < b''\<rparr> \<and>
   \<not> html_part (Part (Some (js ''text/plain'')) None (Some (Body (Some (js ''YSA8IGI'')))) None) \<and>
   html \<lparr>html = js ''a &lt; b'', plain = js ''a < b''\<rparr>
     = plain_to_html (plain \<lparr>html = js ''a &lt; b'', plain = js ''a < b''\<rparr>) \<and>
   html \<lparr>html = js ''a &lt; b'', plain = js ''a < b''\<rparr>
     = concat (map escape_char (plain \<lparr>html = js ''a &lt; b'', plain = js ''a < b''\<rparr>))"
proof -
  let ?p = "Part (Some (js ''text/plain'')) None (Some (Body (Some (js ''YSA8IGI'')))) None"
  let ?r = "\<lparr>html = js ''a &lt; b'', plain = js ''a < b''\<rparr>"
  have nh: "\<not> html_part ?p"
    by (simp add: html_part_def) (simp add: js_def)
  have e: "extractEmailBody ?p = Inr ?r"
    by (simp add: extractEmailBody_def process_body_def decode_a_lt_b plain_to_html_def)
       (simp add: js_def)
  have ne: "plain ?r \<noteq> []" by (simp add: js_def)
  from nh have "\<forall>x \<in> set (walk ?p). \<not> html_part x" by simp
  from extractEmailBody_synthesized_html[OF e this ne] nh e show ?thesis by blast
qed

section \<open>Claim C9: signOut\<close>

text \<open>
  What \<open>signOut\<close> does in general: the token of the API client is always cleared; the
  set is cleared on the branch taken with a cached token, and kept on the other.
\<close>

lemma signOut_effect:
  "accessToken (signOut env w) = None \<and>
   lastKnownMessageIds (signOut env w)
     = (if truthy (snd (getAuthToken env False)) then {} else lastKnownMessageIds w)"
  by (simp add: signOut_def Let_def split: prod.splits)

text \<open>
  C9 says that after \<open>signOut\<close> the token is cleared and \<open>lastKnownMessageIds\<close> is
  empty, whether or not a cached credential exists. On a platform without a cached
  credential, from a state that holds a token and the set \<open>{m1}\<close>, \<open>signOut\<close> clears
  the token and leaves the set \<open>{m1}\<close>.
\<close>

theorem signOut_without_cached_token:
  "accessToken (signOut quiet_platform
       (initial_world\<lparr>accessToken := Some (js ''token''),
                       lastKnownMessageIds := {Some (js ''m1'')}\<rparr>)) = None \<and>
   lastKnownMessageIds (signOut quiet_platform
       (initial_world\<lparr>accessToken := Some (js ''token''),
                       lastKnownMessageIds := {Some (js ''m1'')}\<rparr>)) = {Some (js ''m1'')}"
  by (simp add: signOut_def quiet_platform_def)

section \<open>Claim C10: a poll cycle that exits early\<close>

text \<open>
  C10. A poll cycle leaves \<open>lastKnownMessageIds\<close> as it was when the silent
  authentication yields no token, when the stored settings have the notifications
  disabled, and when the fetch of the unread messages throws. Conversely, a cycle that
  changes the set is one that got a token and whose fetch succeeded.
\<close>

theorem checkForNewEmails_early_exit:
  "(\<not> truthy (fst (authenticateSilently env w)) \<longrightarrow>
      lastKnownMessageIds (checkForNewEmails env w) = lastKnownMessageIds w) \<and>
   ((\<exists>stored. storage_get env = Inr stored \<and> notificationsEnabled stored = Some False) \<longrightarrow>
      lastKnownMessageIds (checkForNewEmails env w) = lastKnownMessageIds w) \<and>
   (isl (fst (listMessages env unread_options (snd (authenticateSilently env w)))) \<longrightarrow>
      lastKnownMessageIds (checkForNewEmails env w) = lastKnownMessageIds w) \<and>
   (lastKnownMessageIds (checkForNewEmails env w) \<noteq> lastKnownMessageIds w \<longrightarrow>
      truthy (fst (authenticateSilently env w)) \<and>
      \<not> isl (fst (listMessages env unread_options (snd (authenticateSilently env w)))))"
proof -
  let ?w1 = "snd (authenticateSilently env w)"
  let ?listed = "listMessages env unread_options ?w1"
  have w1: "lastKnownMessageIds ?w1 = lastKnownMessageIds w"
    by (rule authenticateSilently_frame)
  have w2: "lastKnownMessageIds (snd ?listed) = lastKnownMessageIds w"
    by (simp add: listMessages_frame w1)
  have a: "lastKnownMessageIds (checkForNewEmails env w) = lastKnownMessageIds w"
    if "\<not> truthy (fst (authenticateSilently env w))"
    using that w1 by (simp add: checkForNewEmails_unfold Let_def)
  have b: "lastKnownMessageIds (checkForNewEmails env w) = lastKnownMessageIds w"
    if "storage_get env = Inr stored" "notificationsEnabled stored = Some False" for stored
    using that w1 by (simp add: checkForNewEmails_unfold Let_def)
  have c: "lastKnownMessageIds (checkForNewEmails env w) = lastKnownMessageIds w"
    if "isl (fst ?listed)"
    using that w1 w2
    by (auto simp: checkForNewEmails_unfold Let_def isl_def split: sum.splits)
  from a b c show ?thesis by blast
qed

text \<open>
  The theorem at a state whose set is \<open>{m0}\<close>: on a platform without a cached token,
  on one with the notifications disabled, and on one whose network is down, the set
  stays; on a platform with a token and the unread message \<open>n1\<close>, the set changes, and
  the cycle had a token and a fetch that succeeded.
\<close>

theorem checkForNewEmails_early_exit_witness:
  "lastKnownMessageIds (checkForNewEmails quiet_platform
       (initial_world\<lparr>lastKnownMessageIds := {Some (js ''m0'')}\<rparr>)) = {Some (js ''m0'')} \<and>
   lastKnownMessageIds (checkForNewEmails
       (mailbox_platform [js ''n1'']\<lparr>storage_get := Inr \<lparr>notificationsEnabled = Some False\<rparr>\<rparr>)
       (initial_world\<lparr>lastKnownMessageIds := {Some (js ''m0'')}\<rparr>)) = {Some (js ''m0'')} \<and>
   lastKnownMessageIds (checkForNewEmails
       (quiet_platform\<lparr>getAuthToken := \<lambda>interactive. (None, Some (js ''token''))\<rparr>)
       (initial_world\<lparr>lastKnownMessageIds := {Some (js ''m0'')}\<rparr>)) = {Some (js ''m0'')} \<and>
   lastKnownMessageIds (checkForNewEmails (mailbox_platform [js ''n1''])
       (initial_world\<lparr>lastKnownMessageIds := {Some (js ''m0'')}\<rparr>)) = {Some (js ''n1'')} \<and>
   truthy (fst (authenticateSilently (mailbox_platform [js ''n1''])
       (initial_world\<lparr>lastKnownMessageIds := {Some (js ''m0'')}\<rparr>))) \<and>
   \<not> isl (fst (listMessages (mailbox_platform [js ''n1'']) unread_options
       (snd (authenticateSilently (mailbox_platform [js ''n1''])
          (initial_world\<lparr>lastKnownMessageIds := {Some (js ''m0'')}\<rparr>)))))"
proof -
  let ?W = "initial_world\<lparr>lastKnownMessageIds := {Some (js ''m0'')}\<rparr>"
  let ?E2 = "mailbox_platform [js ''n1'']\<lparr>storage_get := Inr \<lparr>notificationsEnabled = Some False\<rparr>\<rparr>"
  let ?E3 = "quiet_platform\<lparr>getAuthToken := \<lambda>interactive. (None, Some (js ''token''))\<rparr>"
  let ?E4 = "mailbox_platform [js ''n1'']"
  have W: "lastKnownMessageIds ?W = {Some (js ''m0'')}" by simp
  have tok: "js ''token'' \<noteq> []" "js ''n1'' \<noteq> js ''m0''" by (simp_all add: js_def)
  have h1: "\<not> truthy (fst (authenticateSilently quiet_platform ?W))"
    by (simp add: authenticateSilently_def quiet_platform_def)
  have h2: "\<exists>stored. storage_get ?E2 = Inr stored \<and> notificationsEnabled stored = Some False"
    by simp
  have h3: "isl (fst (listMessages ?E3 unread_options (snd (authenticateSilently ?E3 ?W))))"
    by (simp add: listMessages_def request_def Let_def authenticateSilently_def quiet_platform_def tok)
  have 4: "lastKnownMessageIds (checkForNewEmails ?E4 ?W) = {Some (js ''n1'')}"
    by (simp add: mailbox_cycle_set)
  then have h4: "lastKnownMessageIds (checkForNewEmails ?E4 ?W) \<noteq> lastKnownMessageIds ?W"
    using tok by simp
  from checkForNewEmails_early_exit[of quiet_platform ?W] h1 W
  have 1: "lastKnownMessageIds (checkForNewEmails quiet_platform ?W) = {Some (js ''m0'')}"
    by simp
  from checkForNewEmails_early_exit[of ?E2 ?W] h2 W
  have 2: "lastKnownMessageIds (checkForNewEmails ?E2 ?W) = {Some (js ''m0'')}"
    by simp
  from checkForNewEmails_early_exit[of ?E3 ?W] h3 W
  have 3: "lastKnownMessageIds (checkForNewEmails ?E3 ?W) = {Some (js ''m0'')}"
    by simp
  from checkForNewEmails_early_exit[of ?E4 ?W] h4
  have 5: "truthy (fst (authenticateSilently ?E4 ?W))"
    and 6: "\<not> isl (fst (listMessages ?E4 unread_options (snd (authenticateSilently ?E4 ?W))))"
    by blast+
  from 1 2 3 4 5 6 show ?thesis by (intro conjI)
qed

end
